theory Spec2Isabelle
  imports Complex_Main "HOL-Library.Word"
begin

unbundle bit_operations_syntax

section \<open>Go values used by the resizer\<close>

subsection \<open>float64\<close>

text \<open>
  A \<open>float64\<close> is a finite value, one of the two infinities, or NaN (the two zeros
  are one value). Every arithmetic operation on finite values computes the exact real
  result and rounds it to the nearest binary64 number, ties to even (\<open>round64\<close>); a
  rounded result beyond the largest binary64 number is an infinity (\<open>fl\<close>). Each
  operation is rounded on its own: no multiplication is fused with an addition, as on
  amd64. The special values follow IEEE 754: NaN is absorbing, every comparison with
  NaN is false, \<open>Inf - Inf\<close> and \<open>0 * Inf\<close> are NaN.

  \<open>round64\<close>: a positive \<open>x\<close> in \<open>[2^e, 2^(e+1))\<close> lies on
      the grid of spacing
  \<open>2^(e-52)\<close>; below \<open>2^(-1022)\<close> the spacing stays
      \<open>2^(-1074)\<close> (subnormal numbers).
\<close>

definition pow2 :: "int \<Rightarrow> real" where
  "pow2 e = 2 powr of_int e"

definition rne :: "real \<Rightarrow> int" where
  "rne y =
     (let f = \<lfloor>y\<rfloor>; d = y - of_int f in
      if d < 1 / 2 then f else if 1 / 2 < d then f + 1 else if even f then f else f + 1)"

definition expo :: "real \<Rightarrow> int" where
  "expo x = max \<lfloor>log 2 x\<rfloor> (- 1022)"

definition round_pos :: "real \<Rightarrow> real" where
  "round_pos x = (let u = pow2 (expo x - 52) in of_int (rne (x / u)) * u)"

definition round64 :: "real \<Rightarrow> real" where
  "round64 x = (if x = 0 then 0 else if x < 0 then - round_pos (- x) else round_pos x)"

definition MaxFloat64 :: real where
  "MaxFloat64 = (2 ^ 53 - 1) * 2 ^ 971"

datatype float64 = Finite real | PosInf | NegInf | NaN

definition fl :: "real \<Rightarrow> float64" where
  "fl x =
     (let r = round64 x in
      if MaxFloat64 < r then PosInf else if r < - MaxFloat64 then NegInf else Finite r)"

text \<open>An untyped Go constant used as a \<open>float64\<close> is rounded once.\<close>

definition const64 :: "real \<Rightarrow> float64" where
  "const64 c = fl c"

instantiation float64 :: "{plus, uminus, minus, times, inverse, abs, ord}"
begin

fun plus_float64 :: "float64 \<Rightarrow> float64 \<Rightarrow> float64" where
  "plus_float64 (Finite a) (Finite b) = fl (a + b)"
| "plus_float64 NaN _ = NaN"
| "plus_float64 _ NaN = NaN"
| "plus_float64 PosInf NegInf = NaN"
| "plus_float64 NegInf PosInf = NaN"
| "plus_float64 PosInf _ = PosInf"
| "plus_float64 _ PosInf = PosInf"
| "plus_float64 NegInf _ = NegInf"
| "plus_float64 _ NegInf = NegInf"

fun uminus_float64 :: "float64 \<Rightarrow> float64" where
  "uminus_float64 (Finite a) = Finite (- a)"
| "uminus_float64 PosInf = NegInf"
| "uminus_float64 NegInf = PosInf"
| "uminus_float64 NaN = NaN"

definition minus_float64 :: "float64 \<Rightarrow> float64 \<Rightarrow> float64" where
  "minus_float64 x y = x + (- y)"

fun times_float64 :: "float64 \<Rightarrow> float64 \<Rightarrow> float64" where
  "times_float64 (Finite a) (Finite b) = fl (a * b)"
| "times_float64 NaN _ = NaN"
| "times_float64 _ NaN = NaN"
| "times_float64 PosInf (Finite b) = (if b = 0 then NaN else if 0 < b then PosInf else NegInf)"
| "times_float64 NegInf (Finite b) = (if b = 0 then NaN else if 0 < b then NegInf else PosInf)"
| "times_float64 (Finite a) PosInf = (if a = 0 then NaN else if 0 < a then PosInf else NegInf)"
| "times_float64 (Finite a) NegInf = (if a = 0 then NaN else if 0 < a then NegInf else PosInf)"
| "times_float64 PosInf PosInf = PosInf"
| "times_float64 NegInf NegInf = PosInf"
| "times_float64 PosInf NegInf = NegInf"
| "times_float64 NegInf PosInf = NegInf"

fun divide_float64 :: "float64 \<Rightarrow> float64 \<Rightarrow> float64" where
  "divide_float64 (Finite a) (Finite b) =
     (if b \<noteq> 0 then fl (a / b)
      else if a = 0 then NaN else if 0 < a then PosInf else NegInf)"
| "divide_float64 NaN _ = NaN"
| "divide_float64 _ NaN = NaN"
| "divide_float64 (Finite a) _ = Finite 0"
| "divide_float64 PosInf (Finite b) = (if 0 \<le> b then PosInf else NegInf)"
| "divide_float64 NegInf (Finite b) = (if 0 \<le> b then NegInf else PosInf)"
| "divide_float64 _ _ = NaN"

definition inverse_float64 :: "float64 \<Rightarrow> float64" where
  "inverse_float64 x = divide (Finite 1) x"

fun abs_float64 :: "float64 \<Rightarrow> float64" where
  "abs_float64 (Finite a) = Finite \<bar>a\<bar>"
| "abs_float64 PosInf = PosInf"
| "abs_float64 NegInf = PosInf"
| "abs_float64 NaN = NaN"

fun less_float64 :: "float64 \<Rightarrow> float64 \<Rightarrow> bool" where
  "less_float64 (Finite a) (Finite b) = (a < b)"
| "less_float64 NaN _ = False"
| "less_float64 _ NaN = False"
| "less_float64 _ NegInf = False"
| "less_float64 PosInf _ = False"
| "less_float64 _ _ = True"

fun less_eq_float64 :: "float64 \<Rightarrow> float64 \<Rightarrow> bool" where
  "less_eq_float64 (Finite a) (Finite b) = (a \<le> b)"
| "less_eq_float64 NaN _ = False"
| "less_eq_float64 _ NaN = False"
| "less_eq_float64 NegInf _ = True"
| "less_eq_float64 _ PosInf = True"
| "less_eq_float64 _ _ = False"

instance ..

end

text \<open>\<open>math.IsNaN\<close>, \<open>math.IsInf(f, 0)\<close>, \<open>math.Floor\<close>
    and the conversion \<open>float64(i)\<close>.\<close>

fun IsNaN :: "float64 \<Rightarrow> bool" where
  "IsNaN NaN = True"
| "IsNaN _ = False"

fun IsInf :: "float64 \<Rightarrow> bool" where
  "IsInf PosInf = True"
| "IsInf NegInf = True"
| "IsInf _ = False"

fun Floor :: "float64 \<Rightarrow> float64" where
  "Floor (Finite a) = Finite (of_int \<lfloor>a\<rfloor>)"
| "Floor f = f"

definition float64_of_int :: "int \<Rightarrow> float64" where
  "float64_of_int i = Finite (round64 (of_int i))"

text \<open>
  Go converts a float to an integer type by discarding the fraction. Where the integer
  type cannot represent the result (and for NaN and the infinities) the language leaves
  the value implementation-dependent: the model leaves it unspecified.
\<close>

definition trunc :: "real \<Rightarrow> int" where
  "trunc a = (if 0 \<le> a then \<lfloor>a\<rfloor> else \<lceil>a\<rceil>)"

definition int_of_float64 :: "float64 \<Rightarrow> int" where
  "int_of_float64 f =
     (case f of
        Finite a \<Rightarrow>
          if - (2 ^ 63) \<le> trunc a \<and> trunc a < 2 ^ 63 then trunc a else undefined
      | _ \<Rightarrow> undefined)"

definition uint8_of_float64 :: "float64 \<Rightarrow> 8 word" where
  "uint8_of_float64 f =
     (case f of
        Finite a \<Rightarrow>
          if 0 \<le> trunc a \<and> trunc a \<le> 255 then word_of_int (trunc a) else undefined
      | _ \<Rightarrow> undefined)"

definition uint16_of_float64 :: "float64 \<Rightarrow> 16 word" where
  "uint16_of_float64 f =
     (case f of
        Finite a \<Rightarrow>
          if 0 \<le> trunc a \<and> trunc a \<le> 65535 then word_of_int (trunc a) else undefined
      | _ \<Rightarrow> undefined)"

subsection \<open>Errors\<close>

text \<open>
  The sentinel errors of the three packages, and \<open>fmt.Errorf\<close> with
      \<open>%w\<close>, which wraps
  an error in a message. \<open>root\<close> is the sentinel that \<open>errors.Is\<close> finds.
\<close>

datatype error =
    ErrInvalidCoordinate
  | ErrInvalidChannel
  | ErrInvalidDimension
  | ErrInvalidPath
  | ErrNilPointer
  | ErrNilImage
  | ErrInvalidBounds
  | ErrResizeFailed
  | ErrUnsupportedBit
  | Wrap string error

fun root :: "error \<Rightarrow> error" where
  "root (Wrap _ e) = root e"
| "root e = e"

section \<open>Package interpolation\<close>

definition KernelSize :: nat where
  "KernelSize = 4"

definition MaxUint16 :: real where
  "MaxUint16 = 65535"

definition MaxUint8 :: real where
  "MaxUint8 = 255"

text \<open>
  \<open>CubicWeight\<close>: \<open>b\<close> and \<open>c\<close> are Go constants, so each
      coefficient is computed
  exactly and then rounded once, where it meets \<open>x\<close>.
\<close>

definition CubicWeight :: "float64 \<Rightarrow> float64" where
  "CubicWeight x0 =
     (let b = (1 / 3 :: real); c = (1 / 3 :: real); x = abs x0 in
      if x < Finite 1 then
        (const64 (12 - 9 * b - 6 * c) * x * x * x + const64 (- 18 + 12 * b + 6 * c) * x * x
           + const64 (6 - 2 * b)) / const64 6
      else if x < Finite 2 then
        (const64 (- b - 6 * c) * x * x * x + const64 (6 * b + 30 * c) * x * x
           + const64 (- 12 * b - 48 * c) * x + const64 (8 * b + 24 * c)) / const64 6
      else Finite 0)"

definition ClampUint8 :: "float64 \<Rightarrow> 8 word" where
  "ClampUint8 v =
     (if v < Finite 0 then 0
      else if v > Finite MaxUint8 then 255
      else uint8_of_float64 (v + Finite 0.5))"

definition ClampUint16 :: "float64 \<Rightarrow> 16 word" where
  "ClampUint16 v =
     (if v < Finite 0 then 0
      else if v > Finite MaxUint16 then 65535
      else uint16_of_float64 (v + Finite 0.5))"

definition GetSafeIndex :: "int \<Rightarrow> int \<Rightarrow> int" where
  "GetSafeIndex index maxIndex =
     (if index < 0 then 0
      else if index \<ge> maxIndex then maxIndex - 1
      else index)"

text \<open>
  \<open>CalculateKernelBounds\<close>. Go's \<open>int\<close> is modelled as an unbounded
      integer: in a
  resize every bound is at most 65535, so \<open>start + KernelSize\<close> does not wrap.
\<close>

definition CalculateKernelBounds :: "float64 \<Rightarrow> int \<Rightarrow> error + (int
    \<times> int)" where
  "CalculateKernelBounds center maxBound =
     (let halfKernel = int KernelSize div 2 in
      if center < Finite 0 \<or> center \<ge> float64_of_int maxBound then Inl
          ErrInvalidCoordinate
      else
        let start = int_of_float64 (Floor center) - halfKernel + 1;
            end = start + int KernelSize
        in if end - start \<noteq> int KernelSize then Inl ErrInvalidCoordinate
           else Inr (start, end))"

text \<open>
  \<open>InterpolateBicubic\<close>: the window \<open>[KernelSize][KernelSize]float64\<close> is
      a list of
  rows; the two loops add the terms in the source's order.
\<close>

definition InterpolateBicubic :: "float64 list list \<Rightarrow> float64 \<Rightarrow> float64
    \<Rightarrow> error + float64" where
  "InterpolateBicubic pixels dx dy =
     (if dx < Finite 0 \<or> dx > Finite 1 \<or> dy < Finite 0 \<or> dy > Finite 1
      then Inl ErrInvalidCoordinate
      else
        let result =
          fold (\<lambda>j result.
                  let wy = CubicWeight (float64_of_int (int j - 1) - dy);
                      rowSum =
                        fold (\<lambda>i rowSum.
                                let wx = CubicWeight (float64_of_int (int i - 1) - dx)
                                in rowSum + pixels ! j ! i * wx)
                             [0..<KernelSize] (Finite 0)
                  in result + rowSum * wy)
               [0..<KernelSize] (Finite 0)
        in if IsNaN result \<or> IsInf result then Inl ErrInvalidChannel else Inr result)"

section \<open>Package validator\<close>

definition MaxImageDimension :: int where
  "MaxImageDimension = 65535"

definition MinImageDimension :: int where
  "MinImageDimension = 1"

text \<open>A Go \<open>error\<close> result is \<open>None\<close> for
    \<open>nil\<close>.\<close>

definition ValidateDimensions :: "int \<Rightarrow> int \<Rightarrow> error option" where
  "ValidateDimensions width height =
     (if width < MinImageDimension \<or> height < MinImageDimension
      then Some (Wrap ''dimensions must be >= 1'' ErrInvalidDimension)
      else if width > MaxImageDimension \<or> height > MaxImageDimension
      then Some (Wrap ''dimensions must be <= 65535'' ErrInvalidDimension)
      else if width * height > MaxImageDimension * MaxImageDimension
      then Some (Wrap ''total pixels exceed safe limit'' ErrInvalidDimension)
      else None)"

definition ValidateResizeRatio :: "int \<Rightarrow> int \<Rightarrow> int \<Rightarrow> int
    \<Rightarrow> error option" where
  "ValidateResizeRatio originalWidth originalHeight newWidth newHeight =
     (let maxScaleFactor = Finite 16; minScaleFactor = Finite 0.0625 in
      case ValidateDimensions originalWidth originalHeight of
        Some err \<Rightarrow> Some err
      | None \<Rightarrow>
          (case ValidateDimensions newWidth newHeight of
             Some err \<Rightarrow> Some err
           | None \<Rightarrow>
               let widthRatio = float64_of_int newWidth / float64_of_int originalWidth;
                   heightRatio = float64_of_int newHeight / float64_of_int originalHeight
               in if widthRatio > maxScaleFactor \<or> widthRatio < minScaleFactor
                  then Some (Wrap ''width scale factor out of range'' ErrInvalidDimension)
                  else if heightRatio > maxScaleFactor \<or> heightRatio < minScaleFactor
                  then Some (Wrap ''height scale factor out of range'' ErrInvalidDimension)
                  else None))"

section \<open>Images\<close>

text \<open>
  The parts of Go's \<open>image\<close> and \<open>color\<close> packages that the resizer
      calls. A source
  image is anything with a colour model, bounds and \<open>At\<close>; of a colour the resizer
      reads
  only \<open>RGBA()\<close>, four \<open>uint32\<close> values, so \<open>At\<close> returns
      those.
\<close>

record Rectangle =
  MinX :: int
  MinY :: int
  MaxX :: int
  MaxY :: int

definition Dx :: "Rectangle \<Rightarrow> int" where
  "Dx r = MaxX r - MinX r"

definition Dy :: "Rectangle \<Rightarrow> int" where
  "Dy r = MaxY r - MinY r"

definition image_Rect :: "int \<Rightarrow> int \<Rightarrow> int \<Rightarrow> int \<Rightarrow>
    Rectangle" where
  "image_Rect x0 y0 x1 y1 =
     \<lparr>MinX = min x0 x1, MinY = min y0 y1, MaxX = max x0 x1, MaxY = max y0 y1\<rparr>"

definition In :: "int \<Rightarrow> int \<Rightarrow> Rectangle \<Rightarrow> bool" where
  "In x y r \<longleftrightarrow> MinX r \<le> x \<and> x < MaxX r \<and> MinY r \<le> y \<and> y
      < MaxY r"

type_synonym Color = "32 word \<times> 32 word \<times> 32 word \<times> 32 word"

datatype Model =
  RGBAModel | NRGBAModel | RGBA64Model | NRGBA64Model | GrayModel | Gray16Model | OtherModel

record Image =
  ColorModel :: Model
  Bounds :: Rectangle
  At :: "int \<Rightarrow> int \<Rightarrow> Color"

text \<open>\<open>color.Gray{Y}.RGBA()\<close>: the 8-bit value repeated in both bytes,
    opaque.\<close>

definition Gray_RGBA :: "8 word \<Rightarrow> Color" where
  "Gray_RGBA Y = (let y = ucast Y; y = or y (push_bit 8 y) in (y, y, y, 0xffff))"

definition float64_of_uint32 :: "32 word \<Rightarrow> float64" where
  "float64_of_uint32 w = Finite (of_nat (unat w))"

text \<open>
  A destination image (\<open>image.RGBA\<close>, \<open>image.RGBA64\<close>,
      \<open>image.Gray\<close>, \<open>image.Gray16\<close>)
  is a pixel buffer with a stride and a rectangle. \<open>Pix\<close> holds one entry for each
  pixel, row by row (the byte layout inside a pixel is not modelled), so the stride is
  the width. \<open>NewBuffer\<close> is \<open>image.NewGray\<close> and its siblings: all
      pixels zero.
  \<open>SetPixel\<close> is \<open>SetGray\<close> and its siblings: a point outside the
      rectangle is ignored.
\<close>

record 'p Buffer =
  Pix :: "'p list"
  Stride :: int
  Rect :: Rectangle

definition NewBuffer :: "'p \<Rightarrow> Rectangle \<Rightarrow> 'p Buffer" where
  "NewBuffer z r = \<lparr>Pix = replicate (nat (Dx r * Dy r)) z, Stride = Dx r, Rect = r\<rparr>"

definition PixOffset :: "'p Buffer \<Rightarrow> int \<Rightarrow> int \<Rightarrow> int" where
  "PixOffset p x y = (y - MinY (Rect p)) * Stride p + (x - MinX (Rect p))"

definition SetPixel :: "int \<Rightarrow> int \<Rightarrow> 'p \<Rightarrow> 'p Buffer
    \<Rightarrow> 'p Buffer" where
  "SetPixel x y c p =
     (if \<not> In x y (Rect p) then p
      else p\<lparr>Pix := (Pix p)[nat (PixOffset p x y) := c]\<rparr>)"

type_synonym RGBA8 = "8 word \<times> 8 word \<times> 8 word \<times> 8 word"
type_synonym RGBA16 = "16 word \<times> 16 word \<times> 16 word \<times> 16 word"

datatype ImageOut =
    RGBA "RGBA8 Buffer"
  | RGBA64 "RGBA16 Buffer"
  | Gray "8 word Buffer"
  | Gray16 "16 word Buffer"

fun OutBounds :: "ImageOut \<Rightarrow> Rectangle" where
  "OutBounds (RGBA p) = Rect p"
| "OutBounds (RGBA64 p) = Rect p"
| "OutBounds (Gray p) = Rect p"
| "OutBounds (Gray16 p) = Rect p"

section \<open>Package resizer\<close>

record Config =
  TargetWidth :: int
  TargetHeight :: int
  Quality :: int

record Resizer =
  config :: Config

definition NewResizer :: "Config \<Rightarrow> error + Resizer" where
  "NewResizer cfg =
     (case ValidateDimensions (TargetWidth cfg) (TargetHeight cfg) of
        Some err \<Rightarrow> Inl (Wrap ''invalid config'' err)
      | None \<Rightarrow>
          let cfg = (if Quality cfg < 0 \<or> Quality cfg > 100 then cfg\<lparr>Quality :=
              100\<rparr> else cfg)
          in Inr \<lparr>config = cfg\<rparr>)"

text \<open>
  The two loops that every \<open>sample\<close> function runs over the kernel span: row
  \<open>kernelY\<close> of the window is filled from source row \<open>GetSafeIndex srcY
      height\<close>, entry
  \<open>kernelX\<close> from column \<open>GetSafeIndex srcX width\<close>; \<open>chan\<close>
      is what the function
  stores of the colour.
\<close>

definition window ::
  "Image \<Rightarrow> (Color \<Rightarrow> float64) \<Rightarrow> int \<Rightarrow> int
      \<Rightarrow> int \<Rightarrow> int \<Rightarrow> int \<Rightarrow> int \<Rightarrow>
      float64 list list" where
  "window src chan startX endX startY endY width height =
     map (\<lambda>srcY.
            let safeY = GetSafeIndex srcY height in
            map (\<lambda>srcX.
                   let safeX = GetSafeIndex srcX width in
                   chan (At src safeX safeY))
                [startX..endX - 1])
         [startY..endY - 1]"

definition sampleRGBA ::
  "Resizer \<Rightarrow> Image \<Rightarrow> float64 \<Rightarrow> float64 \<Rightarrow> int
      \<Rightarrow> int \<Rightarrow> error + RGBA8" where
  "sampleRGBA r src x y width height =
     (case CalculateKernelBounds x width of
        Inl err \<Rightarrow> Inl err
      | Inr (startX, endX) \<Rightarrow>
     (case CalculateKernelBounds y height of
        Inl err \<Rightarrow> Inl err
      | Inr (startY, endY) \<Rightarrow>
     (let dx = x - float64_of_int (int_of_float64 x);
          dy = y - float64_of_int (int_of_float64 y);
          rPixels = window src (\<lambda>(r32, g32, b32, a32). float64_of_uint32 (drop_bit 8 r32))
                      startX endX startY endY width height;
          gPixels = window src (\<lambda>(r32, g32, b32, a32). float64_of_uint32 (drop_bit 8 g32))
                      startX endX startY endY width height;
          bPixels = window src (\<lambda>(r32, g32, b32, a32). float64_of_uint32 (drop_bit 8 b32))
                      startX endX startY endY width height;
          aPixels = window src (\<lambda>(r32, g32, b32, a32). float64_of_uint32 (drop_bit 8 a32))
                      startX endX startY endY width height
      in case InterpolateBicubic rPixels dx dy of
           Inl err \<Rightarrow> Inl err
         | Inr rVal \<Rightarrow>
        (case InterpolateBicubic gPixels dx dy of
           Inl err \<Rightarrow> Inl err
         | Inr gVal \<Rightarrow>
        (case InterpolateBicubic bPixels dx dy of
           Inl err \<Rightarrow> Inl err
         | Inr bVal \<Rightarrow>
        (case InterpolateBicubic aPixels dx dy of
           Inl err \<Rightarrow> Inl err
         | Inr aVal \<Rightarrow>
             Inr (ClampUint8 rVal, ClampUint8 gVal, ClampUint8 bVal, ClampUint8 aVal)))))))"

definition sampleRGBA64 ::
  "Resizer \<Rightarrow> Image \<Rightarrow> float64 \<Rightarrow> float64 \<Rightarrow> int
      \<Rightarrow> int \<Rightarrow> error + RGBA16" where
  "sampleRGBA64 r src x y width height =
     (case CalculateKernelBounds x width of
        Inl err \<Rightarrow> Inl err
      | Inr (startX, endX) \<Rightarrow>
     (case CalculateKernelBounds y height of
        Inl err \<Rightarrow> Inl err
      | Inr (startY, endY) \<Rightarrow>
     (let dx = x - float64_of_int (int_of_float64 x);
          dy = y - float64_of_int (int_of_float64 y);
          rPixels = window src (\<lambda>(r32, g32, b32, a32). float64_of_uint32 r32)
                      startX endX startY endY width height;
          gPixels = window src (\<lambda>(r32, g32, b32, a32). float64_of_uint32 g32)
                      startX endX startY endY width height;
          bPixels = window src (\<lambda>(r32, g32, b32, a32). float64_of_uint32 b32)
                      startX endX startY endY width height;
          aPixels = window src (\<lambda>(r32, g32, b32, a32). float64_of_uint32 a32)
                      startX endX startY endY width height
      in case InterpolateBicubic rPixels dx dy of
           Inl err \<Rightarrow> Inl err
         | Inr rVal \<Rightarrow>
        (case InterpolateBicubic gPixels dx dy of
           Inl err \<Rightarrow> Inl err
         | Inr gVal \<Rightarrow>
        (case InterpolateBicubic bPixels dx dy of
           Inl err \<Rightarrow> Inl err
         | Inr bVal \<Rightarrow>
        (case InterpolateBicubic aPixels dx dy of
           Inl err \<Rightarrow> Inl err
         | Inr aVal \<Rightarrow>
             Inr (ClampUint16 rVal, ClampUint16 gVal, ClampUint16 bVal, ClampUint16 aVal)))))))"

definition sampleGray ::
  "Resizer \<Rightarrow> Image \<Rightarrow> float64 \<Rightarrow> float64 \<Rightarrow> int
      \<Rightarrow> int \<Rightarrow> error + 8 word" where
  "sampleGray r src x y width height =
     (case CalculateKernelBounds x width of
        Inl err \<Rightarrow> Inl err
      | Inr (startX, endX) \<Rightarrow>
     (case CalculateKernelBounds y height of
        Inl err \<Rightarrow> Inl err
      | Inr (startY, endY) \<Rightarrow>
     (let dx = x - float64_of_int (int_of_float64 x);
          dy = y - float64_of_int (int_of_float64 y);
          pixels = window src (\<lambda>(gray, g32, b32, a32). float64_of_uint32 (drop_bit 8
              gray))
                     startX endX startY endY width height
      in case InterpolateBicubic pixels dx dy of
           Inl err \<Rightarrow> Inl err
         | Inr val \<Rightarrow> Inr (ClampUint8 val))))"

definition sampleGray16 ::
  "Resizer \<Rightarrow> Image \<Rightarrow> float64 \<Rightarrow> float64 \<Rightarrow> int
      \<Rightarrow> int \<Rightarrow> error + 16 word" where
  "sampleGray16 r src x y width height =
     (case CalculateKernelBounds x width of
        Inl err \<Rightarrow> Inl err
      | Inr (startX, endX) \<Rightarrow>
     (case CalculateKernelBounds y height of
        Inl err \<Rightarrow> Inl err
      | Inr (startY, endY) \<Rightarrow>
     (let dx = x - float64_of_int (int_of_float64 x);
          dy = y - float64_of_int (int_of_float64 y);
          pixels = window src (\<lambda>(gray, g32, b32, a32). float64_of_uint32 gray)
                     startX endX startY endY width height
      in case InterpolateBicubic pixels dx dy of
           Inl err \<Rightarrow> Inl err
         | Inr val \<Rightarrow> Inr (ClampUint16 val))))"

text \<open>
  The scan that the four \<open>resize\<close> functions share: rows, then columns; the first
  failing sample ends the scan with its error (an \<open>Inl\<close> is passed through the rest of
  both folds unchanged), otherwise the pixel is stored. The error wraps the sample's
  error; the coordinates in its message are left out.
\<close>

definition scan ::
  "(float64 \<Rightarrow> float64 \<Rightarrow> error + 'p) \<Rightarrow> int \<Rightarrow> int
      \<Rightarrow> int \<Rightarrow> int \<Rightarrow> 'p Buffer
     \<Rightarrow> error + 'p Buffer" where
  "scan sample srcWidth srcHeight targetWidth targetHeight dst0 =
     (let xRatio = float64_of_int srcWidth / float64_of_int targetWidth;
          yRatio = float64_of_int srcHeight / float64_of_int targetHeight
      in fold (\<lambda>y acc.
                 case acc of
                   Inl err \<Rightarrow> Inl err
                 | Inr dst \<Rightarrow>
                     let srcY = (float64_of_int y + Finite 0.5) * yRatio in
                     fold (\<lambda>x acc.
                             case acc of
                               Inl err \<Rightarrow> Inl err
                             | Inr dst \<Rightarrow>
                                 let srcX = (float64_of_int x + Finite 0.5) * xRatio in
                                 (case sample srcX srcY of
                                    Inl err \<Rightarrow> Inl (Wrap ''sampling failed'' err)
                                  | Inr c \<Rightarrow> Inr (SetPixel x y c dst)))
                          [0..targetWidth - 1] (Inr dst))
              [0..targetHeight - 1] (Inr dst0))"

definition resizeRGBA :: "Resizer \<Rightarrow> Image \<Rightarrow> int \<Rightarrow> int
    \<Rightarrow> error + RGBA8 Buffer" where
  "resizeRGBA r src srcWidth srcHeight =
     (case ValidateDimensions (TargetWidth (config r)) (TargetHeight (config r)) of
        Some err \<Rightarrow> Inl err
      | None \<Rightarrow>
          let dst = NewBuffer (0, 0, 0, 0)
                      (image_Rect 0 0 (TargetWidth (config r)) (TargetHeight (config r)))
          in scan (\<lambda>srcX srcY. sampleRGBA r src srcX srcY srcWidth srcHeight)
               srcWidth srcHeight (TargetWidth (config r)) (TargetHeight (config r)) dst)"

definition resizeRGBA64 :: "Resizer \<Rightarrow> Image \<Rightarrow> int \<Rightarrow> int
    \<Rightarrow> error + RGBA16 Buffer" where
  "resizeRGBA64 r src srcWidth srcHeight =
     (case ValidateDimensions (TargetWidth (config r)) (TargetHeight (config r)) of
        Some err \<Rightarrow> Inl err
      | None \<Rightarrow>
          let dst = NewBuffer (0, 0, 0, 0)
                      (image_Rect 0 0 (TargetWidth (config r)) (TargetHeight (config r)))
          in scan (\<lambda>srcX srcY. sampleRGBA64 r src srcX srcY srcWidth srcHeight)
               srcWidth srcHeight (TargetWidth (config r)) (TargetHeight (config r)) dst)"

definition resizeGray :: "Resizer \<Rightarrow> Image \<Rightarrow> int \<Rightarrow> int
    \<Rightarrow> error + 8 word Buffer" where
  "resizeGray r src srcWidth srcHeight =
     (case ValidateDimensions (TargetWidth (config r)) (TargetHeight (config r)) of
        Some err \<Rightarrow> Inl err
      | None \<Rightarrow>
          let dst = NewBuffer 0
                      (image_Rect 0 0 (TargetWidth (config r)) (TargetHeight (config r)))
          in scan (\<lambda>srcX srcY. sampleGray r src srcX srcY srcWidth srcHeight)
               srcWidth srcHeight (TargetWidth (config r)) (TargetHeight (config r)) dst)"

definition resizeGray16 :: "Resizer \<Rightarrow> Image \<Rightarrow> int \<Rightarrow> int
    \<Rightarrow> error + 16 word Buffer" where
  "resizeGray16 r src srcWidth srcHeight =
     (case ValidateDimensions (TargetWidth (config r)) (TargetHeight (config r)) of
        Some err \<Rightarrow> Inl err
      | None \<Rightarrow>
          let dst = NewBuffer 0
                      (image_Rect 0 0 (TargetWidth (config r)) (TargetHeight (config r)))
          in scan (\<lambda>srcX srcY. sampleGray16 r src srcX srcY srcWidth srcHeight)
               srcWidth srcHeight (TargetWidth (config r)) (TargetHeight (config r)) dst)"

text \<open>\<open>Resize\<close>: a nil source is \<open>None\<close>.\<close>

definition Resize :: "Resizer \<Rightarrow> Image option \<Rightarrow> error + ImageOut" where
  "Resize r src0 =
     (case src0 of
        None \<Rightarrow> Inl ErrNilImage
      | Some src \<Rightarrow>
          let bounds = Bounds src; srcWidth = Dx bounds; srcHeight = Dy bounds in
          (case ValidateDimensions srcWidth srcHeight of
             Some err \<Rightarrow> Inl (Wrap ''invalid source dimensions'' err)
           | None \<Rightarrow>
          (case ValidateResizeRatio srcWidth srcHeight
                  (TargetWidth (config r)) (TargetHeight (config r)) of
             Some err \<Rightarrow> Inl (Wrap ''invalid resize ratio'' err)
           | None \<Rightarrow>
          (case ColorModel src of
             RGBAModel \<Rightarrow> map_sum id RGBA (resizeRGBA r src srcWidth srcHeight)
           | NRGBAModel \<Rightarrow> map_sum id RGBA (resizeRGBA r src srcWidth srcHeight)
           | RGBA64Model \<Rightarrow> map_sum id RGBA64 (resizeRGBA64 r src srcWidth srcHeight)
           | NRGBA64Model \<Rightarrow> map_sum id RGBA64 (resizeRGBA64 r src srcWidth srcHeight)
           | GrayModel \<Rightarrow> map_sum id Gray (resizeGray r src srcWidth srcHeight)
           | Gray16Model \<Rightarrow> map_sum id Gray16 (resizeGray16 r src srcWidth srcHeight)
           | OtherModel \<Rightarrow> map_sum id RGBA (resizeRGBA r src srcWidth srcHeight)))))"

section \<open>Notions used in the proofs\<close>

text \<open>
  The Mitchell-Netravali cubic with \<open>B = C = 1/3\<close> on the reals: the function that
  \<open>CubicWeight\<close> computes up to rounding.
\<close>

definition cw :: "real \<Rightarrow> real" where
  "cw x =
     (let t = \<bar>x\<bar> in
      if t < 1 then (7 * t ^ 3 - 12 * t ^ 2 + 16 / 3) / 6
      else if t < 2 then (- (7 / 3) * t ^ 3 + 12 * t ^ 2 - 20 * t + 32 / 3) / 6
      else 0)"

text \<open>
  The window and the interpolation on finite samples, as real numbers: \<open>rwindow\<close> is
  the window of a span that starts at \<open>(startX, startY)\<close>, \<open>interp\<close> the
      double sum of
  \<open>InterpolateBicubic\<close> in the same order.
\<close>

definition rwindow ::
  "Image \<Rightarrow> (Color \<Rightarrow> real) \<Rightarrow> int \<Rightarrow> int
      \<Rightarrow> int \<Rightarrow> int \<Rightarrow> real list list" where
  "rwindow src g startX startY width height =
     map (\<lambda>srcY. map (\<lambda>srcX. g (At src (GetSafeIndex srcX width) (GetSafeIndex
         srcY height)))
                     [startX, startX + 1, startX + 2, startX + 3])
         [startY, startY + 1, startY + 2, startY + 3]"

definition interp :: "real list list \<Rightarrow> real \<Rightarrow> real \<Rightarrow> real"
    where
  "interp rows dx dy =
     fold (\<lambda>j result.
             result
             + fold (\<lambda>i rowSum. rowSum + rows ! j ! i * cw (of_int (int i - 1) - dx))
                 [0, 1, 2, 3] 0
               * cw (of_int (int j - 1) - dy))
          [0, 1, 2, 3] 0"

text \<open>
  The source coordinate that the scan computes for the destination index \<open>i\<close>:
  \<open>(float64(i) + 0.5) * ratio\<close> with \<open>ratio = float64(src) /
      float64(tgt)\<close>, every operation
  rounded.
\<close>

definition src_center :: "int \<Rightarrow> int \<Rightarrow> int \<Rightarrow> float64" where
  "src_center i src tgt =
     (float64_of_int i + Finite 0.5) * (float64_of_int src / float64_of_int tgt)"

text \<open>The scan when every sample succeeds with the pixel \<open>px x y\<close>.\<close>

definition paint :: "(int \<Rightarrow> int \<Rightarrow> 'p) \<Rightarrow> int \<Rightarrow> int
    \<Rightarrow> 'p Buffer \<Rightarrow> 'p Buffer" where
  "paint px targetWidth targetHeight dst0 =
     fold (\<lambda>y dst. fold (\<lambda>x dst. SetPixel x y (px x y) dst) [0..targetWidth - 1]
         dst)
          [0..targetHeight - 1] dst0"

definition well_formed :: "'p Buffer \<Rightarrow> int \<Rightarrow> int \<Rightarrow> bool" where
  "well_formed p w h \<longleftrightarrow>
     Rect p = \<lparr>MinX = 0, MinY = 0, MaxX = w, MaxY = h\<rparr> \<and> Stride p = w \<and>
     length (Pix p) = nat (w * h)"

text \<open>
  \<open>apx A e f a\<close>: the \<open>float64\<close> \<open>f\<close> is finite and within
      \<open>e\<close> of the real number
  \<open>a\<close>, whose magnitude is at most \<open>A\<close>.
\<close>

definition apx :: "real \<Rightarrow> real \<Rightarrow> float64 \<Rightarrow> real \<Rightarrow>
    bool" where
  "apx A e f a \<longleftrightarrow> (\<exists>a'. f = Finite a' \<and> \<bar>a' - a\<bar> \<le>
      e \<and> \<bar>a\<bar> \<le> A)"

text \<open>
  An \<open>image.Gray\<close> of \<open>w\<close> by \<open>h\<close> pixels whose bounds start
      at \<open>(x0, y0)\<close>, every
  pixel \<open>v\<close>; outside its bounds \<open>At\<close> gives the zero colour.
      \<open>uniform_gray\<close> is the
  one at the origin.
\<close>

definition uniform_gray_at :: "int \<Rightarrow> int \<Rightarrow> int \<Rightarrow> int
    \<Rightarrow> 8 word \<Rightarrow> Image" where
  "uniform_gray_at x0 y0 w h v =
     \<lparr>ColorModel = GrayModel, Bounds = image_Rect x0 y0 (x0 + w) (y0 + h),
      At = (\<lambda>x y. if In x y (image_Rect x0 y0 (x0 + w) (y0 + h)) then Gray_RGBA v
                  else Gray_RGBA 0)\<rparr>"

definition uniform_gray :: "int \<Rightarrow> int \<Rightarrow> 8 word \<Rightarrow> Image" where
  "uniform_gray w h v =
     \<lparr>ColorModel = GrayModel, Bounds = image_Rect 0 0 w h,
      At = (\<lambda>x y. if In x y (image_Rect 0 0 w h) then Gray_RGBA v else Gray_RGBA
          0)\<rparr>"

text \<open>
  The requests that the claims call valid: every source and target dimension in
  \<open>[1, 65535]\<close> and each ratio target/source in \<open>[1/16, 16]\<close>.
\<close>

definition valid_request :: "int \<Rightarrow> int \<Rightarrow> int \<Rightarrow> int
    \<Rightarrow> bool" where
  "valid_request sw sh tw th \<longleftrightarrow>
     1 \<le> sw \<and> sw \<le> 65535 \<and> 1 \<le> sh \<and> sh \<le> 65535 \<and>
     1 \<le> tw \<and> tw \<le> 65535 \<and> 1 \<le> th \<and> th \<le> 65535 \<and>
     1 / 16 \<le> real_of_int tw / real_of_int sw \<and> real_of_int tw / real_of_int sw \<le> 16
         \<and>
     1 / 16 \<le> real_of_int th / real_of_int sh \<and> real_of_int th / real_of_int sh \<le> 16"

section \<open>Rounding facts\<close>

lemma pow2_pos [simp]: "0 < pow2 e"
  by (simp add: pow2_def)

lemma pow2_nonneg [simp]: "0 \<le> pow2 e"
  by (simp add: pow2_def)

lemma pow2_neq0 [simp]: "pow2 e \<noteq> 0"
  by (simp add: pow2_def)

lemma pow2_add: "pow2 (a + b) = pow2 a * pow2 b"
  by (simp add: pow2_def powr_add)

lemma pow2_mono: "a \<le> b \<Longrightarrow> pow2 a \<le> pow2 b"
  by (simp add: pow2_def)

lemma pow2_nat: "pow2 (int n) = 2 ^ n"
  by (simp add: pow2_def powr_realpow)

lemma pow2_neg: "pow2 (- int n) = 1 / 2 ^ n"
  by (simp add: pow2_def powr_minus powr_realpow divide_inverse)

lemma pow2_numeral [simp]: "pow2 (numeral n) = 2 ^ numeral n"
  using pow2_nat [of "numeral n"] by simp

lemma pow2_neg_numeral [simp]: "pow2 (- numeral n) = 1 / 2 ^ numeral n"
  using pow2_neg [of "numeral n"] by simp

lemma pow2_0 [simp]: "pow2 0 = 1"
  by (simp add: pow2_def)

lemma pow2_1 [simp]: "pow2 1 = 2"
  by (simp add: pow2_def)

lemma pow2_m1 [simp]: "pow2 (- 1) = 1 / 2"
  using pow2_neg [of 1] by simp

lemma rne_int [simp]: "rne (of_int n) = n"
  by (simp add: rne_def)

lemma rne_cases: "rne y = \<lfloor>y\<rfloor> \<or> rne y = \<lfloor>y\<rfloor> + 1"
  by (simp add: rne_def Let_def)

lemma rne_mono:
  assumes "a \<le> b"
  shows "rne a \<le> rne b"
proof (cases "\<lfloor>a\<rfloor> = \<lfloor>b\<rfloor>")
  case True
  with assms show ?thesis by (auto simp: rne_def Let_def)
next
  case False
  with floor_mono [OF assms] have "\<lfloor>a\<rfloor> + 1 \<le> \<lfloor>b\<rfloor>" by simp
  moreover have "rne a \<le> \<lfloor>a\<rfloor> + 1" using rne_cases [of a] by auto
  moreover have "\<lfloor>b\<rfloor> \<le> rne b" using rne_cases [of b] by auto
  ultimately show ?thesis by linarith
qed

lemma rne_err: "\<bar>of_int (rne y) - y\<bar> \<le> 1 / 2"
proof -
  have "of_int \<lfloor>y\<rfloor> \<le> y" "y < of_int \<lfloor>y\<rfloor> + 1" by linarith+
  then show ?thesis by (auto simp: rne_def Let_def)
qed

lemma floor_log_bounds:
  assumes "0 < x"
  shows "pow2 \<lfloor>log 2 x\<rfloor> \<le> x" and "x < pow2 (\<lfloor>log 2 x\<rfloor> + 1)"
  using floor_log_eq_powr_iff [of x 2 "\<lfloor>log 2 x\<rfloor>"] assms by (simp_all add:
      pow2_def)

lemma expo_upper:
  assumes "0 < x"
  shows "x < pow2 (expo x + 1)"
proof -
  have "x < pow2 (\<lfloor>log 2 x\<rfloor> + 1)" by (rule floor_log_bounds [OF assms])
  also have "\<dots> \<le> pow2 (expo x + 1)" by (rule pow2_mono) (simp add: expo_def)
  finally show ?thesis .
qed

lemma expo_small:
  assumes "0 < x" and "x < pow2 (- 1022)"
  shows "expo x = - 1022"
proof -
  have "\<lfloor>log 2 x\<rfloor> < - 1022"
  proof (rule ccontr)
    assume "\<not> \<lfloor>log 2 x\<rfloor> < - 1022"
    then have "pow2 (- 1022) \<le> pow2 \<lfloor>log 2 x\<rfloor>" by (intro pow2_mono) simp
    also have "\<dots> \<le> x" by (rule floor_log_bounds [OF assms(1)])
    finally show False using assms(2) by simp
  qed
  then show ?thesis by (simp add: expo_def)
qed

lemma expo_lower:
  assumes "pow2 (- 1022) \<le> x"
  shows "pow2 (expo x) \<le> x"
proof -
  have x: "0 < x" using assms pow2_pos [of "- 1022"] by linarith
  show ?thesis
  proof (cases "\<lfloor>log 2 x\<rfloor> \<le> - 1022")
    case True
    then have "expo x = - 1022" by (simp add: expo_def)
    with assms show ?thesis by simp
  next
    case False
    then have "expo x = \<lfloor>log 2 x\<rfloor>" by (simp add: expo_def)
    with floor_log_bounds(1) [OF x] show ?thesis by simp
  qed
qed

lemma expo_eq:
  assumes "pow2 e \<le> x" and "x < pow2 (e + 1)" and "- 1022 \<le> e"
  shows "expo x = e"
proof -
  have "0 < x" using assms(1) pow2_pos [of e] by linarith
  then have "\<lfloor>log 2 x\<rfloor> = e"
    using floor_log_eq_powr_iff [of x 2 e] assms by (simp add: pow2_def)
  with assms(3) show ?thesis by (simp add: expo_def)
qed

lemma expo_mono:
  assumes "0 < x" and "x \<le> y"
  shows "expo x \<le> expo y"
proof -
  have "log 2 x \<le> log 2 y" using assms by simp
  then have "\<lfloor>log 2 x\<rfloor> \<le> \<lfloor>log 2 y\<rfloor>" by (rule floor_mono)
  then show ?thesis by (simp add: expo_def)
qed

lemma round_pos_nonneg:
  assumes "0 < x"
  shows "0 \<le> round_pos x"
proof -
  have "0 \<le> x / pow2 (expo x - 52)" using assms by simp
  then have "rne 0 \<le> rne (x / pow2 (expo x - 52))" by (rule rne_mono)
  then have "0 \<le> rne (x / pow2 (expo x - 52))" using rne_int [of 0] by simp
  then show ?thesis by (simp add: round_pos_def Let_def)
qed

lemma round_pos_upper:
  assumes "0 < x"
  shows "round_pos x \<le> pow2 (expo x + 1)"
proof -
  define u where "u = pow2 (expo x - 52)"
  have u: "0 < u" by (simp add: u_def)
  have "expo x + 1 = 53 + (expo x - 52)" by linarith
  then have "pow2 (expo x + 1) = pow2 (53 + (expo x - 52))" by (rule arg_cong)
  also have "\<dots> = 2 ^ 53 * u" unfolding u_def by (subst pow2_add) simp
  finally have e: "pow2 (expo x + 1) = 2 ^ 53 * u" .
  have "x \<le> 2 ^ 53 * u" using expo_upper [OF assms] e by simp
  then have "x / u \<le> of_int (2 ^ 53)" using u by (simp add: pos_divide_le_eq)
  then have "rne (x / u) \<le> rne (of_int (2 ^ 53))" by (rule rne_mono)
  then have "rne (x / u) \<le> 2 ^ 53" by (simp only: rne_int)
  then have "real_of_int (rne (x / u)) \<le> real_of_int (2 ^ 53)" by (simp only: of_int_le_iff)
  then have "of_int (rne (x / u)) * u \<le> 2 ^ 53 * u" using u by (simp add: mult_right_mono)
  then show ?thesis by (simp add: round_pos_def Let_def e u_def)
qed

lemma round_pos_lower:
  assumes "pow2 (- 1022) \<le> x"
  shows "pow2 (expo x) \<le> round_pos x"
proof -
  define u where "u = pow2 (expo x - 52)"
  have u: "0 < u" by (simp add: u_def)
  have "expo x = 52 + (expo x - 52)" by linarith
  then have "pow2 (expo x) = pow2 (52 + (expo x - 52))" by (rule arg_cong)
  also have "\<dots> = 2 ^ 52 * u" unfolding u_def by (subst pow2_add) simp
  finally have e: "pow2 (expo x) = 2 ^ 52 * u" .
  have "2 ^ 52 * u \<le> x" using expo_lower [OF assms] e by simp
  then have "of_int (2 ^ 52) \<le> x / u" using u by (simp add: pos_le_divide_eq)
  then have "rne (of_int (2 ^ 52)) \<le> rne (x / u)" by (rule rne_mono)
  then have "2 ^ 52 \<le> rne (x / u)" by (simp only: rne_int)
  then have "real_of_int (2 ^ 52) \<le> real_of_int (rne (x / u))" by (simp only: of_int_le_iff)
  then have "2 ^ 52 * u \<le> of_int (rne (x / u)) * u" using u by (simp add: mult_right_mono)
  then show ?thesis by (simp add: round_pos_def Let_def e u_def)
qed

lemma round_pos_mono:
  assumes "0 < x" and "x \<le> y"
  shows "round_pos x \<le> round_pos y"
proof (cases "expo x = expo y")
  case True
  have "x / pow2 (expo y - 52) \<le> y / pow2 (expo y - 52)"
    using assms(2) by (simp add: divide_right_mono)
  then have "rne (x / pow2 (expo y - 52)) \<le> rne (y / pow2 (expo y - 52))" by (rule rne_mono)
  then show ?thesis by (simp add: round_pos_def Let_def True mult_right_mono)
next
  case False
  with expo_mono [OF assms] have lt: "expo x + 1 \<le> expo y" by simp
  have y: "pow2 (- 1022) \<le> y"
  proof (rule ccontr)
    assume "\<not> pow2 (- 1022) \<le> y"
    then have "y < pow2 (- 1022)" by simp
    with assms have "expo y = - 1022" "expo x = - 1022" by (auto intro!: expo_small)
    with False show False by simp
  qed
  have "round_pos x \<le> pow2 (expo x + 1)" by (rule round_pos_upper [OF assms(1)])
  also have "\<dots> \<le> pow2 (expo y)" using lt by (rule pow2_mono)
  also have "\<dots> \<le> round_pos y" by (rule round_pos_lower [OF y])
  finally show ?thesis .
qed

lemma round64_mono:
  assumes "x \<le> y"
  shows "round64 x \<le> round64 y"
proof -
  consider "0 < x" | "x = 0" | "x < 0" "0 \<le> y" | "x < 0" "y < 0" by linarith
  then show ?thesis
  proof cases
    case 1
    with assms show ?thesis by (simp add: round64_def round_pos_mono)
  next
    case 2
    with assms show ?thesis by (auto simp: round64_def round_pos_nonneg)
  next
    case 3
    then have "0 \<le> round_pos (- x)" by (simp add: round_pos_nonneg)
    moreover have "0 \<le> round64 y" using 3 by (auto simp: round64_def round_pos_nonneg)
    ultimately show ?thesis using 3 by (simp add: round64_def)
  next
    case 4
    then have "round_pos (- y) \<le> round_pos (- x)" using assms by (intro round_pos_mono) auto
    with 4 show ?thesis by (simp add: round64_def)
  qed
qed

lemma round64_minus: "round64 (- x) = - round64 x"
  by (simp add: round64_def)

lemma round_pos_exact:
  assumes "0 < m" and "m < 2 ^ 53" and "- 1074 \<le> k"
  shows "round_pos (of_int m * pow2 k) = of_int m * pow2 k"
proof -
  let ?x = "real_of_int m * pow2 k"
  have x: "0 < ?x" using assms(1) by simp
  have "real_of_int m < real_of_int (2 ^ 53)" using assms(2) by (simp only: of_int_less_iff)
  then have "?x < 2 ^ 53 * pow2 k" by simp
  also have "2 ^ 53 * pow2 k = pow2 (53 + k)" by (subst pow2_add) simp
  finally have up: "?x < pow2 (k + 53)" by (simp add: add.commute)
  have e: "expo ?x \<le> k + 52"
  proof (rule ccontr)
    assume "\<not> expo ?x \<le> k + 52"
    then have big: "k + 53 \<le> expo ?x" by simp
    with assms(3) have "- 1022 < expo ?x" by simp
    then have "\<not> ?x < pow2 (- 1022)" using expo_small [OF x] by auto
    then have "pow2 (expo ?x) \<le> ?x" by (intro expo_lower) simp
    moreover have "pow2 (k + 53) \<le> pow2 (expo ?x)" using big by (rule pow2_mono)
    ultimately show False using up by simp
  qed
  define n where "n = nat (k + 52 - expo ?x)"
  define u where "u = pow2 (expo ?x - 52)"
  have n: "int n = k + 52 - expo ?x" using e by (simp add: n_def)
  have u: "0 < u" by (simp add: u_def)
  have "pow2 k = pow2 (int n + (expo ?x - 52))" by (simp add: n)
  also have "\<dots> = pow2 (int n) * pow2 (expo ?x - 52)" by (rule pow2_add)
  finally have k: "pow2 k = 2 ^ n * u" by (simp only: pow2_nat u_def)
  have "?x / u = of_int m * 2 ^ n" using u by (simp add: k)
  also have "\<dots> = of_int (m * 2 ^ n)" by simp
  finally have "rne (?x / u) = m * 2 ^ n" by (simp only: rne_int)
  then have "round_pos ?x = of_int (m * 2 ^ n) * u"
    by (simp add: round_pos_def Let_def u_def)
  also have "\<dots> = of_int m * (2 ^ n * u)" by simp
  also have "\<dots> = ?x" by (simp only: k)
  finally show ?thesis .
qed

lemma round64_exact:
  assumes "\<bar>m\<bar> < 2 ^ 53" and "- 1074 \<le> k"
  shows "round64 (of_int m * pow2 k) = of_int m * pow2 k"
proof -
  consider "m = 0" | "0 < m" | "m < 0" by linarith
  then show ?thesis
  proof cases
    case 1
    then show ?thesis by (simp add: round64_def)
  next
    case 2
    with assms have "m < 2 ^ 53" by simp
    moreover have "0 < real_of_int m * pow2 k" using 2 by simp
    ultimately show ?thesis
      using round_pos_exact [OF 2 _ assms(2)] by (simp add: round64_def)
  next
    case 3
    with assms have m: "0 < - m" "- m < 2 ^ 53" by simp_all
    have neg: "real_of_int m * pow2 k < 0" using 3 by (simp add: mult_less_0_iff)
    have "round_pos (real_of_int (- m) * pow2 k) = real_of_int (- m) * pow2 k"
      by (rule round_pos_exact [OF m assms(2)])
    then have "round_pos (- (real_of_int m * pow2 k)) = - (real_of_int m * pow2 k)" by simp
    with neg show ?thesis by (simp add: round64_def)
  qed
qed

lemma round_pos_error:
  assumes "0 < x"
  shows "\<bar>round_pos x - x\<bar> \<le> pow2 (expo x - 53)"
proof -
  define u where "u = pow2 (expo x - 52)"
  have u: "0 < u" by (simp add: u_def)
  have "\<bar>of_int (rne (x / u)) - x / u\<bar> \<le> 1 / 2" by (rule rne_err)
  then have "\<bar>of_int (rne (x / u)) - x / u\<bar> * u \<le> 1 / 2 * u"
    using u by (intro mult_right_mono) simp_all
  moreover have "\<bar>of_int (rne (x / u)) - x / u\<bar> * u = \<bar>of_int (rne (x / u)) * u -
      x\<bar>"
  proof -
    have "\<bar>of_int (rne (x / u)) - x / u\<bar> * u = \<bar>(of_int (rne (x / u)) - x / u) *
        u\<bar>"
      using u by (simp add: abs_mult)
    also have "(of_int (rne (x / u)) - x / u) * u = of_int (rne (x / u)) * u - x"
      using u by (simp add: algebra_simps)
    finally show ?thesis .
  qed
  moreover have "1 / 2 * u = pow2 (expo x - 53)"
  proof -
    have "expo x - 53 = - 1 + (expo x - 52)" by linarith
    then have "pow2 (expo x - 53) = pow2 (- 1 + (expo x - 52))" by (rule arg_cong)
    also have "\<dots> = 1 / 2 * u" unfolding u_def by (subst pow2_add) simp
    finally show ?thesis by simp
  qed
  ultimately have "\<bar>of_int (rne (x / u)) * u - x\<bar> \<le> pow2 (expo x - 53)" by linarith
  moreover have "round_pos x = of_int (rne (x / u)) * u"
    by (simp add: round_pos_def Let_def u_def)
  ultimately show ?thesis by (simp only:)
qed

lemma round64_error: "\<bar>round64 x - x\<bar> \<le> (max \<bar>x\<bar> (pow2 (- 1022))) / 2 ^
    53"
proof -
  have pos: "\<bar>round_pos y - y\<bar> \<le> (max y (pow2 (- 1022))) / 2 ^ 53" if "0 < y" for y
  proof -
    have "pow2 (expo y) \<le> max y (pow2 (- 1022))"
    proof (cases "pow2 (- 1022) \<le> y")
      case True
      with expo_lower [OF True] show ?thesis by simp
    next
      case False
      then have "expo y = - 1022" using that by (intro expo_small) simp_all
      then show ?thesis by simp
    qed
    moreover have "pow2 (expo y - 53) = pow2 (expo y) / 2 ^ 53"
    proof -
      have "expo y - 53 = expo y + (- 53)" by linarith
      then have "pow2 (expo y - 53) = pow2 (expo y + (- 53))" by (rule arg_cong)
      also have "\<dots> = pow2 (expo y) * pow2 (- 53)" by (rule pow2_add)
      finally show ?thesis by simp
    qed
    ultimately have "pow2 (expo y - 53) \<le> (max y (pow2 (- 1022))) / 2 ^ 53"
      by (simp add: divide_right_mono)
    with round_pos_error [OF that] show ?thesis by linarith
  qed
  consider "x = 0" | "0 < x" | "x < 0" by linarith
  then show ?thesis
  proof cases
    case 1
    then show ?thesis by (simp add: round64_def)
  next
    case 2
    with pos [OF 2] show ?thesis by (simp add: round64_def)
  next
    case 3
    then have "0 < - x" by simp
    from pos [OF this] 3 show ?thesis
      by (simp add: round64_def abs_minus_commute add.commute)
  qed
qed

lemma round64_eval:
  assumes "pow2 e \<le> x" and "x < pow2 (e + 1)" and "- 1022 \<le> e"
  shows "round64 x = of_int (rne (x / pow2 (e - 52))) * pow2 (e - 52)"
proof -
  have "0 < x" using assms(1) pow2_pos [of e] by linarith
  then show ?thesis by (simp add: round64_def round_pos_def Let_def expo_eq [OF assms])
qed

section \<open>Arithmetic facts\<close>

lemma round64_pow2:
  assumes "- 1074 \<le> k"
  shows "round64 (pow2 k) = pow2 k"
  using round64_exact [of 1 k] assms by simp

lemma round64_int:
  assumes "\<bar>i\<bar> \<le> 2 ^ 53"
  shows "round64 (of_int i) = of_int i"
proof (cases "\<bar>i\<bar> < 2 ^ 53")
  case True
  from round64_exact [OF True, of 0] show ?thesis by simp
next
  case False
  with assms have "i = 2 ^ 53 \<or> i = - (2 ^ 53)" by linarith
  moreover have "round64 (2 ^ 53) = 2 ^ 53" using round64_pow2 [of 53] by simp
  ultimately show ?thesis by (auto simp: round64_minus)
qed

lemma round64_half:
  assumes "\<bar>m\<bar> < 2 ^ 53"
  shows "round64 (of_int m / 2) = of_int m / 2"
  using round64_exact [OF assms, of "- 1"] by simp

lemma round64_0 [simp]: "round64 0 = 0"
  by (simp add: round64_def)

lemma round64_1 [simp]: "round64 1 = 1"
  using round64_int [of 1] by simp

lemma round64_abs_le:
  assumes "\<bar>x\<bar> \<le> pow2 k" and "- 1074 \<le> k"
  shows "\<bar>round64 x\<bar> \<le> pow2 k"
proof -
  have "round64 x \<le> round64 (pow2 k)" using assms(1) by (intro round64_mono) simp
  moreover have "round64 (- pow2 k) \<le> round64 x" using assms(1) by (intro round64_mono) simp
  ultimately show ?thesis by (simp add: round64_pow2 [OF assms(2)] round64_minus)
qed

lemma round64_err1: "\<bar>round64 x - x\<bar> \<le> (\<bar>x\<bar> + 1) / 2 ^ 53"
proof -
  have "pow2 (- 1022) \<le> pow2 0" by (rule pow2_mono) simp
  then have "max \<bar>x\<bar> (pow2 (- 1022)) \<le> \<bar>x\<bar> + 1" by simp
  then have "max \<bar>x\<bar> (pow2 (- 1022)) / 2 ^ 53 \<le> (\<bar>x\<bar> + 1) / 2 ^ 53"
    by (rule divide_right_mono) simp
  with round64_error [of x] show ?thesis by linarith
qed

lemma fl_Finite:
  assumes "\<bar>x\<bar> \<le> 2 ^ 1000"
  shows "fl x = Finite (round64 x)"
proof -
  have "\<bar>x\<bar> \<le> pow2 1000" using assms by simp
  then have "\<bar>round64 x\<bar> \<le> pow2 1000" by (rule round64_abs_le) simp
  moreover have "pow2 1000 \<le> MaxFloat64" by (simp add: MaxFloat64_def)
  ultimately have "\<not> MaxFloat64 < round64 x" "\<not> round64 x < - MaxFloat64" by linarith+
  then show ?thesis by (simp add: fl_def Let_def)
qed

lemma float64_of_int_exact:
  assumes "\<bar>i\<bar> \<le> 2 ^ 53"
  shows "float64_of_int i = Finite (of_int i)"
  by (simp add: float64_of_int_def round64_int [OF assms])

lemma apx_exact: "\<bar>a\<bar> \<le> A \<Longrightarrow> apx A 0 (Finite a) a"
  by (simp add: apx_def)

lemma apx_weaken: "apx A e f a \<Longrightarrow> A \<le> A' \<Longrightarrow> e \<le> e'
    \<Longrightarrow> apx A' e' f a"
  by (auto simp: apx_def)

lemma apx_fl:
  assumes "\<bar>s - a\<bar> \<le> d" and "\<bar>a\<bar> \<le> A" and "d \<le> 1" and "A \<le> 2
      ^ 900"
    and "d + (A + 2) / 2 ^ 53 \<le> E"
  shows "apx A E (fl s) a"
proof -
  have s: "\<bar>s\<bar> \<le> A + 1" using assms(1-3) by linarith
  have "(2::real) ^ 900 + 1 \<le> 2 ^ 1000" by simp
  with s assms(4) have "\<bar>s\<bar> \<le> 2 ^ 1000" by linarith
  then have f: "fl s = Finite (round64 s)" by (rule fl_Finite)
  have "\<bar>round64 s - s\<bar> \<le> (\<bar>s\<bar> + 1) / 2 ^ 53" by (rule round64_err1)
  also have "\<dots> \<le> (A + 2) / 2 ^ 53" using s by (intro divide_right_mono) simp_all
  finally have "\<bar>round64 s - a\<bar> \<le> d + (A + 2) / 2 ^ 53" using assms(1) by linarith
  with assms(5) have "\<bar>round64 s - a\<bar> \<le> E" by linarith
  with f assms(2) show ?thesis by (simp add: apx_def)
qed

lemma apx_const:
  assumes "\<bar>c\<bar> \<le> A" and "A \<le> 2 ^ 900" and "(A + 2) / 2 ^ 53 \<le> E"
  shows "apx A E (const64 c) c"
  unfolding const64_def using assms by (intro apx_fl [where d = 0]) simp_all

lemma apx_add:
  assumes "apx A e1 x a" and "apx B e2 y b"
    and "A + B \<le> C" and "C \<le> 2 ^ 900" and "e1 + e2 \<le> 1"
    and "e1 + e2 + (C + 2) / 2 ^ 53 \<le> E"
  shows "apx C E (x + y) (a + b)"
proof -
  from assms(1) obtain a' where a: "x = Finite a'" "\<bar>a' - a\<bar> \<le> e1" "\<bar>a\<bar>
      \<le> A"
    by (auto simp: apx_def)
  from assms(2) obtain b' where b: "y = Finite b'" "\<bar>b' - b\<bar> \<le> e2" "\<bar>b\<bar>
      \<le> B"
    by (auto simp: apx_def)
  have "apx C E (fl (a' + b')) (a + b)"
  proof (rule apx_fl [where d = "e1 + e2"])
    show "\<bar>a' + b' - (a + b)\<bar> \<le> e1 + e2" using a(2) b(2) by linarith
    show "\<bar>a + b\<bar> \<le> C" using a(3) b(3) assms(3) by linarith
  qed (use assms in simp_all)
  then show ?thesis by (simp add: a(1) b(1))
qed

lemma apx_neg: "apx A e x a \<Longrightarrow> apx A e (- x) (- a)"
  by (auto simp: apx_def)

lemma apx_sub:
  assumes "apx A e1 x a" and "apx B e2 y b"
    and "A + B \<le> C" and "C \<le> 2 ^ 900" and "e1 + e2 \<le> 1"
    and "e1 + e2 + (C + 2) / 2 ^ 53 \<le> E"
  shows "apx C E (x - y) (a - b)"
  using apx_add [OF assms(1) apx_neg [OF assms(2)] assms(3-6)]
  by (simp add: minus_float64_def)

lemma apx_mul:
  assumes "apx A e1 x a" and "apx B e2 y b"
    and "A * B \<le> C" and "C \<le> 2 ^ 900" and "e1 \<le> 1" and "e2 \<le> 1"
    and "e1 * (B + 1) + e2 * A \<le> 1"
    and "e1 * (B + 1) + e2 * A + (C + 2) / 2 ^ 53 \<le> E"
  shows "apx C E (x * y) (a * b)"
proof -
  from assms(1) obtain a' where a: "x = Finite a'" "\<bar>a' - a\<bar> \<le> e1" "\<bar>a\<bar>
      \<le> A"
    by (auto simp: apx_def)
  from assms(2) obtain b' where b: "y = Finite b'" "\<bar>b' - b\<bar> \<le> e2" "\<bar>b\<bar>
      \<le> B"
    by (auto simp: apx_def)
  have e: "0 \<le> e1" "0 \<le> e2" using a(2) b(2) by linarith+
  have A: "0 \<le> A" "0 \<le> B" using a(3) b(3) by linarith+
  have b': "\<bar>b'\<bar> \<le> B + 1" using b(2,3) assms(6) by linarith
  have "apx C E (fl (a' * b')) (a * b)"
  proof (rule apx_fl [where d = "e1 * (B + 1) + e2 * A"])
    have "a' * b' - a * b = (a' - a) * b' + a * (b' - b)" by (simp add: algebra_simps)
    then have "\<bar>a' * b' - a * b\<bar> \<le> \<bar>(a' - a) * b'\<bar> + \<bar>a * (b' -
        b)\<bar>" by linarith
    also have "\<bar>(a' - a) * b'\<bar> \<le> e1 * (B + 1)"
      unfolding abs_mult using a(2) b' e by (intro mult_mono) simp_all
    also have "\<bar>a * (b' - b)\<bar> \<le> A * e2"
      unfolding abs_mult using a(3) b(2) A by (intro mult_mono) simp_all
    finally show "\<bar>a' * b' - a * b\<bar> \<le> e1 * (B + 1) + e2 * A" by (simp add:
        mult.commute)
    have "\<bar>a * b\<bar> \<le> A * B" unfolding abs_mult using a(3) b(3) A by (intro
        mult_mono) simp_all
    with assms(3) show "\<bar>a * b\<bar> \<le> C" by linarith
  qed (use assms in simp_all)
  then show ?thesis by (simp add: a(1) b(1))
qed

lemma apx_div6:
  assumes "apx A e x a" and "A \<le> 2 ^ 900" and "e \<le> 1" and "e + (A + 2) / 2 ^ 53 \<le> E"
  shows "apx A E (x / const64 6) (a / 6)"
proof -
  from assms(1) obtain a' where a: "x = Finite a'" "\<bar>a' - a\<bar> \<le> e" "\<bar>a\<bar>
      \<le> A"
    by (auto simp: apx_def)
  have six: "const64 6 = Finite 6"
    using round64_int [of 6] by (simp add: const64_def fl_Finite)
  have "apx A E (fl (a' / 6)) (a / 6)"
  proof (rule apx_fl [where d = e])
    have "\<bar>a' / 6 - a / 6\<bar> = \<bar>a' - a\<bar> / 6" by (simp add: diff_divide_distrib
        [symmetric])
    with a(2) show "\<bar>a' / 6 - a / 6\<bar> \<le> e" by linarith
    show "\<bar>a / 6\<bar> \<le> A" using a(3) by simp
  qed (use assms in simp_all)
  then show ?thesis by (simp add: a(1) six)
qed

section \<open>The cubic on the reals\<close>

lemma cubic1_lipschitz:
  fixes s t :: real
  assumes "0 \<le> s" "s \<le> t" "t \<le> 1"
  shows "\<bar>(7 * t ^ 3 - 12 * t ^ 2 + 16 / 3) / 6 - (7 * s ^ 3 - 12 * s ^ 2 + 16 / 3) / 6\<bar>
           \<le> 4 * (t - s)"
proof -
  define tt ts ss where "tt = t * t" and "ts = t * s" and "ss = s * s"
  define q where "q = (7 * (tt + ts + ss) - 12 * (t + s)) / 6"
  have t: "0 \<le> t" "s \<le> 1" using assms by linarith+
  have b: "0 \<le> tt" "tt \<le> 1" "0 \<le> ts" "ts \<le> 1" "0 \<le> ss" "ss \<le> 1"
    unfolding tt_def ts_def ss_def using assms t
    by (simp_all add: mult_le_one)
  have "q \<le> 4" unfolding q_def using b assms t by argo
  moreover have "- 4 \<le> q" unfolding q_def using b assms t by argo
  ultimately have q: "\<bar>q\<bar> \<le> 4" by (simp add: abs_le_iff)
  have "(7 * t ^ 3 - 12 * t ^ 2 + 16 / 3) / 6 - (7 * s ^ 3 - 12 * s ^ 2 + 16 / 3) / 6
          = (t - s) * q"
    unfolding q_def tt_def ts_def ss_def
    by (simp add: power3_eq_cube power2_eq_square field_simps)
  then have "\<bar>(7 * t ^ 3 - 12 * t ^ 2 + 16 / 3) / 6 - (7 * s ^ 3 - 12 * s ^ 2 + 16 / 3) /
      6\<bar>
          = (t - s) * \<bar>q\<bar>"
    using assms by (simp add: abs_mult)
  also have "\<dots> \<le> (t - s) * 4" using q assms by (intro mult_left_mono) simp_all
  finally show ?thesis by simp
qed

lemma cubic2_lipschitz:
  fixes s t :: real
  assumes "1 \<le> s" "s \<le> t" "t \<le> 2"
  shows "\<bar>(- (7 / 3) * t ^ 3 + 12 * t ^ 2 - 20 * t + 32 / 3) / 6
          - (- (7 / 3) * s ^ 3 + 12 * s ^ 2 - 20 * s + 32 / 3) / 6\<bar> \<le> 4 * (t - s)"
proof -
  define tt ts ss where "tt = t * t" and "ts = t * s" and "ss = s * s"
  define q where "q = (- (7 / 3) * (tt + ts + ss) + 12 * (t + s) - 20) / 6"
  have t: "1 \<le> t" "s \<le> 2" using assms by linarith+
  have "1 * 1 \<le> t * t" "1 * 1 \<le> t * s" "1 * 1 \<le> s * s"
    using assms t by (intro mult_mono; simp)+
  then have lo: "1 \<le> tt" "1 \<le> ts" "1 \<le> ss"
    unfolding tt_def ts_def ss_def by simp_all
  have hi: "tt \<le> 2 * 2" "ts \<le> 2 * 2" "ss \<le> 2 * 2"
    unfolding tt_def ts_def ss_def using assms t
    by (intro mult_mono; simp)+
  have "q \<le> 4" unfolding q_def using lo hi assms t by argo
  moreover have "- 4 \<le> q" unfolding q_def using lo hi assms t by argo
  ultimately have q: "\<bar>q\<bar> \<le> 4" by (simp add: abs_le_iff)
  have "(- (7 / 3) * t ^ 3 + 12 * t ^ 2 - 20 * t + 32 / 3) / 6
          - (- (7 / 3) * s ^ 3 + 12 * s ^ 2 - 20 * s + 32 / 3) / 6 = (t - s) * q"
    unfolding q_def tt_def ts_def ss_def
    by (simp add: power3_eq_cube power2_eq_square field_simps)
  then have "\<bar>(- (7 / 3) * t ^ 3 + 12 * t ^ 2 - 20 * t + 32 / 3) / 6
          - (- (7 / 3) * s ^ 3 + 12 * s ^ 2 - 20 * s + 32 / 3) / 6\<bar> = (t - s) *
              \<bar>q\<bar>"
    using assms by (simp add: abs_mult)
  also have "\<dots> \<le> (t - s) * 4" using q assms by (intro mult_left_mono) simp_all
  finally show ?thesis by simp
qed

lemma cw_lipschitz_ordered:
  fixes s t :: real
  assumes "0 \<le> s" "s \<le> t"
  shows "\<bar>cw t - cw s\<bar> \<le> 4 * (t - s)"
proof -
  define p1 where "p1 = (\<lambda>x::real. (7 * x ^ 3 - 12 * x ^ 2 + 16 / 3) / 6)"
  define p2 where "p2 = (\<lambda>x::real. (- (7 / 3) * x ^ 3 + 12 * x ^ 2 - 20 * x + 32 / 3) /
      6)"
  have j: "p1 1 = p2 1" "p2 2 = 0" by (simp_all add: p1_def p2_def)
  have l1: "\<bar>p1 b - p1 a\<bar> \<le> 4 * (b - a)" if "0 \<le> a" "a \<le> b" "b \<le> 1" for
      a b
    unfolding p1_def using that by (rule cubic1_lipschitz)
  have l2: "\<bar>p2 b - p2 a\<bar> \<le> 4 * (b - a)" if "1 \<le> a" "a \<le> b" "b \<le> 2" for
      a b
    unfolding p2_def using that by (rule cubic2_lipschitz)
  have c1: "cw x = p1 x" if "0 \<le> x" "x < 1" for x using that by (simp add: cw_def p1_def)
  have c2: "cw x = p2 x" if "1 \<le> x" "x < 2" for x using that by (simp add: cw_def p2_def)
  have c3: "cw x = 0" if "2 \<le> x" for x using that by (simp add: cw_def)
  consider "t < 1" | "s < 1" "1 \<le> t" "t < 2" | "s < 1" "2 \<le> t"
    | "1 \<le> s" "t < 2" | "1 \<le> s" "s < 2" "2 \<le> t" | "2 \<le> s"
    by linarith
  then show ?thesis
  proof cases
    case 1
    with assms have "cw t = p1 t" "cw s = p1 s" by (simp_all add: c1)
    with l1 [of s t] assms 1 show ?thesis by simp
  next
    case 2
    with assms have "cw t = p2 t" "cw s = p1 s" by (simp_all add: c1 c2)
    with l2 [of 1 t] l1 [of s 1] j assms 2 show ?thesis by simp
  next
    case 3
    with assms have "cw t = 0" "cw s = p1 s" by (simp_all add: c1 c3)
    with l2 [of 1 2] l1 [of s 1] j assms 3 show ?thesis by simp
  next
    case 4
    with assms have "cw t = p2 t" "cw s = p2 s" by (simp_all add: c2)
    with l2 [of s t] assms 4 show ?thesis by simp
  next
    case 5
    with assms have "cw t = 0" "cw s = p2 s" by (simp_all add: c2 c3)
    with l2 [of s 2] j assms 5 show ?thesis by simp
  next
    case 6
    with assms have "cw t = 0" "cw s = 0" by (simp_all add: c3)
    with assms show ?thesis by simp
  qed
qed

lemma cw_abs: "cw \<bar>x\<bar> = cw x"
  by (simp add: cw_def)

lemma cw_lipschitz: "\<bar>cw a - cw b\<bar> \<le> 4 * \<bar>a - b\<bar>"
proof -
  have *: "\<bar>cw t - cw s\<bar> \<le> 4 * \<bar>t - s\<bar>" if "0 \<le> s" "0 \<le> t" for s
      t :: real
  proof (cases "s \<le> t")
    case True
    with cw_lipschitz_ordered [OF that(1) True] show ?thesis by simp
  next
    case False
    then have "t \<le> s" by simp
    with cw_lipschitz_ordered [OF that(2) this] show ?thesis by (simp add: abs_minus_commute)
  qed
  have "\<bar>cw \<bar>a\<bar> - cw \<bar>b\<bar>\<bar> \<le> 4 * \<bar>\<bar>a\<bar> -
      \<bar>b\<bar>\<bar>" by (rule *) simp_all
  moreover have "\<bar>\<bar>a\<bar> - \<bar>b\<bar>\<bar> \<le> \<bar>a - b\<bar>" by (rule
      abs_triangle_ineq3)
  ultimately show ?thesis by (simp add: cw_abs)
qed

section \<open>CubicWeight up to rounding\<close>

lemma CubicWeight_unfold:
  "CubicWeight (Finite t) =
     (if \<bar>t\<bar> < 1 then (const64 7 * Finite \<bar>t\<bar> * Finite \<bar>t\<bar> * Finite
         \<bar>t\<bar> + const64 (- 12) * Finite \<bar>t\<bar> * Finite \<bar>t\<bar> + const64
         (16 / 3)) / const64 6
      else if \<bar>t\<bar> < 2 then (const64 (- (7 / 3)) * Finite \<bar>t\<bar> * Finite
          \<bar>t\<bar> * Finite \<bar>t\<bar> + const64 12 * Finite \<bar>t\<bar> * Finite
          \<bar>t\<bar> + const64 (- 20) * Finite \<bar>t\<bar> + const64 (32 / 3)) / const64 6
      else Finite 0)"
  by (simp add: CubicWeight_def Let_def)

lemma CubicWeight_piece1:
  assumes "0 \<le> x" and "x < 1"
  shows "apx 25 (316 / 2 ^ 53) ((const64 7 * Finite x * Finite x * Finite x + const64 (- 12) *
      Finite x * Finite x + const64 (16 / 3)) / const64 6)
           ((7 * x ^ 3 - 12 * x ^ 2 + 16 / 3) / 6)"
proof -
  have X: "apx 1 0 (Finite x) x" using assms by (intro apx_exact) simp
  have s1: "apx (7) (9 / 2 ^ 53) (const64 7) (7)"
    by (rule apx_const) simp_all
  have s2: "apx (7) (27 / 2 ^ 53) (const64 7 * Finite x) (7 * x)"
    by (rule apx_mul [OF s1 X]) simp_all
  have s3: "apx (7) (63 / 2 ^ 53) (const64 7 * Finite x * Finite x) (7 * x * x)"
    by (rule apx_mul [OF s2 X]) simp_all
  have s4: "apx (7) (135 / 2 ^ 53) (const64 7 * Finite x * Finite x * Finite x) (7 * x * x * x)"
    by (rule apx_mul [OF s3 X]) simp_all
  have s5: "apx (12) (14 / 2 ^ 53) (const64 (- 12)) (- 12)"
    by (rule apx_const) simp_all
  have s6: "apx (12) (42 / 2 ^ 53) (const64 (- 12) * Finite x) (- 12 * x)"
    by (rule apx_mul [OF s5 X]) simp_all
  have s7: "apx (12) (98 / 2 ^ 53) (const64 (- 12) * Finite x * Finite x) (- 12 * x * x)"
    by (rule apx_mul [OF s6 X]) simp_all
  have s8: "apx (6) (8 / 2 ^ 53) (const64 (16 / 3)) (16 / 3)"
    by (rule apx_const) simp_all
  have s9: "apx (19) (254 / 2 ^ 53) (const64 7 * Finite x * Finite x * Finite x + const64 (- 12)
      * Finite x * Finite x) (7 * x * x * x + - 12 * x * x)"
    by (rule apx_add [OF s4 s7]) simp_all
  have s10: "apx (25) (289 / 2 ^ 53) (const64 7 * Finite x * Finite x * Finite x + const64 (- 12)
      * Finite x * Finite x + const64 (16 / 3)) (7 * x * x * x + - 12 * x * x + 16 / 3)"
    by (rule apx_add [OF s9 s8]) simp_all
  have s11: "apx (25) (316 / 2 ^ 53) ((const64 7 * Finite x * Finite x * Finite x + const64 (-
      12) * Finite x * Finite x + const64 (16 / 3)) / const64 6) ((7 * x * x * x + - 12 * x * x +
      16 / 3) / 6)"
    by (rule apx_div6 [OF s10]) simp_all
  have eq: "((7 * x * x * x + - 12 * x * x + 16 / 3) / 6) = (7 * x ^ 3 - 12 * x ^ 2 + 16 / 3) / 6"
    by (simp add: power3_eq_cube power2_eq_square)
  then show ?thesis using s11 by (simp only:)
qed

lemma CubicWeight_piece2:
  assumes "1 \<le> x" and "x < 2"
  shows "apx 123 (1088 / 2 ^ 53) ((const64 (- (7 / 3)) * Finite x * Finite x * Finite x + const64
      12 * Finite x * Finite x + const64 (- 20) * Finite x + const64 (32 / 3)) / const64 6)
           ((- (7 / 3) * x ^ 3 + 12 * x ^ 2 - 20 * x + 32 / 3) / 6)"
proof -
  have X: "apx 2 0 (Finite x) x" using assms by (intro apx_exact) simp
  have s1: "apx (3) (5 / 2 ^ 53) (const64 (- (7 / 3))) (- (7 / 3))"
    by (rule apx_const) simp_all
  have s2: "apx (6) (23 / 2 ^ 53) (const64 (- (7 / 3)) * Finite x) (- (7 / 3) * x)"
    by (rule apx_mul [OF s1 X]) simp_all
  have s3: "apx (12) (83 / 2 ^ 53) (const64 (- (7 / 3)) * Finite x * Finite x) (- (7 / 3) * x *
      x)"
    by (rule apx_mul [OF s2 X]) simp_all
  have s4: "apx (24) (275 / 2 ^ 53) (const64 (- (7 / 3)) * Finite x * Finite x * Finite x) (- (7
      / 3) * x * x * x)"
    by (rule apx_mul [OF s3 X]) simp_all
  have s5: "apx (12) (14 / 2 ^ 53) (const64 12) (12)"
    by (rule apx_const) simp_all
  have s6: "apx (24) (68 / 2 ^ 53) (const64 12 * Finite x) (12 * x)"
    by (rule apx_mul [OF s5 X]) simp_all
  have s7: "apx (48) (254 / 2 ^ 53) (const64 12 * Finite x * Finite x) (12 * x * x)"
    by (rule apx_mul [OF s6 X]) simp_all
  have s8: "apx (20) (22 / 2 ^ 53) (const64 (- 20)) (- 20)"
    by (rule apx_const) simp_all
  have s9: "apx (40) (108 / 2 ^ 53) (const64 (- 20) * Finite x) (- 20 * x)"
    by (rule apx_mul [OF s8 X]) simp_all
  have s10: "apx (11) (13 / 2 ^ 53) (const64 (32 / 3)) (32 / 3)"
    by (rule apx_const) simp_all
  have s11: "apx (72) (603 / 2 ^ 53) (const64 (- (7 / 3)) * Finite x * Finite x * Finite x +
      const64 12 * Finite x * Finite x) (- (7 / 3) * x * x * x + 12 * x * x)"
    by (rule apx_add [OF s4 s7]) simp_all
  have s12: "apx (112) (825 / 2 ^ 53) (const64 (- (7 / 3)) * Finite x * Finite x * Finite x +
      const64 12 * Finite x * Finite x + const64 (- 20) * Finite x) (- (7 / 3) * x * x * x + 12 *
      x * x + - 20 * x)"
    by (rule apx_add [OF s11 s9]) simp_all
  have s13: "apx (123) (963 / 2 ^ 53) (const64 (- (7 / 3)) * Finite x * Finite x * Finite x +
      const64 12 * Finite x * Finite x + const64 (- 20) * Finite x + const64 (32 / 3)) (- (7 / 3)
      * x * x * x + 12 * x * x + - 20 * x + 32 / 3)"
    by (rule apx_add [OF s12 s10]) simp_all
  have s14: "apx (123) (1088 / 2 ^ 53) ((const64 (- (7 / 3)) * Finite x * Finite x * Finite x +
      const64 12 * Finite x * Finite x + const64 (- 20) * Finite x + const64 (32 / 3)) / const64
      6) ((- (7 / 3) * x * x * x + 12 * x * x + - 20 * x + 32 / 3) / 6)"
    by (rule apx_div6 [OF s13]) simp_all
  have eq: "((- (7 / 3) * x * x * x + 12 * x * x + - 20 * x + 32 / 3) / 6) = (- (7 / 3) * x ^ 3 +
      12 * x ^ 2 - 20 * x + 32 / 3) / 6"
    by (simp add: power3_eq_cube power2_eq_square)
  then show ?thesis using s14 by (simp only:)
qed

lemma CubicWeight_apx: "apx 123 (1088 / 2 ^ 53) (CubicWeight (Finite t)) (cw t)"
proof -
  consider "\<bar>t\<bar> < 1" | "1 \<le> \<bar>t\<bar>" "\<bar>t\<bar> < 2" | "2 \<le>
      \<bar>t\<bar>" by linarith
  then show ?thesis
  proof cases
    case 1
    then have p: "apx 25 (316 / 2 ^ 53) ((const64 7 * Finite \<bar>t\<bar> * Finite \<bar>t\<bar>
        * Finite \<bar>t\<bar> + const64 (- 12) * Finite \<bar>t\<bar> * Finite \<bar>t\<bar> +
        const64 (16 / 3)) / const64 6)
           ((7 * \<bar>t\<bar> ^ 3 - 12 * \<bar>t\<bar> ^ 2 + 16 / 3) / 6)"
      by (intro CubicWeight_piece1) simp_all
    have c: "CubicWeight (Finite t) = (const64 7 * Finite \<bar>t\<bar> * Finite \<bar>t\<bar> *
        Finite \<bar>t\<bar> + const64 (- 12) * Finite \<bar>t\<bar> * Finite \<bar>t\<bar> +
        const64 (16 / 3)) / const64 6"
      using 1 by (simp add: CubicWeight_unfold)
    have i: "cw t = (7 * \<bar>t\<bar> ^ 3 - 12 * \<bar>t\<bar> ^ 2 + 16 / 3) / 6"
      using 1 by (simp add: cw_def Let_def)
    from p have "apx 25 (316 / 2 ^ 53) (CubicWeight (Finite t)) (cw t)" by (simp only: c i)
    then show ?thesis by (rule apx_weaken) simp_all
  next
    case 2
    then have p: "apx 123 (1088 / 2 ^ 53) ((const64 (- (7 / 3)) * Finite \<bar>t\<bar> * Finite
        \<bar>t\<bar> * Finite \<bar>t\<bar> + const64 12 * Finite \<bar>t\<bar> * Finite
        \<bar>t\<bar> + const64 (- 20) * Finite \<bar>t\<bar> + const64 (32 / 3)) / const64 6)
           ((- (7 / 3) * \<bar>t\<bar> ^ 3 + 12 * \<bar>t\<bar> ^ 2 - 20 * \<bar>t\<bar> + 32 /
               3) / 6)"
      by (intro CubicWeight_piece2) simp_all
    have c: "CubicWeight (Finite t) = (const64 (- (7 / 3)) * Finite \<bar>t\<bar> * Finite
        \<bar>t\<bar> * Finite \<bar>t\<bar> + const64 12 * Finite \<bar>t\<bar> * Finite
        \<bar>t\<bar> + const64 (- 20) * Finite \<bar>t\<bar> + const64 (32 / 3)) / const64 6"
      using 2 by (simp add: CubicWeight_unfold)
    have i: "cw t = (- (7 / 3) * \<bar>t\<bar> ^ 3 + 12 * \<bar>t\<bar> ^ 2 - 20 * \<bar>t\<bar>
        + 32 / 3) / 6"
      using 2 by (simp add: cw_def Let_def)
    from p show ?thesis by (simp only: c i)
  next
    case 3
    then have "CubicWeight (Finite t) = Finite 0" "cw t = 0"
      by (simp_all add: CubicWeight_unfold cw_def)
    then show ?thesis by (simp add: apx_def)
  qed
qed

lemma CubicWeight_apx_arg:
  assumes "apx A e x t" and "4 * e + 1088 / 2 ^ 53 \<le> E"
  shows "apx 123 E (CubicWeight x) (cw t)"
proof -
  from assms(1) obtain t' where t: "x = Finite t'" "\<bar>t' - t\<bar> \<le> e" by (auto simp:
      apx_def)
  from CubicWeight_apx [of t'] obtain w where
    w: "CubicWeight (Finite t') = Finite w" "\<bar>w - cw t'\<bar> \<le> 1088 / 2 ^ 53"
    by (auto simp: apx_def)
  from CubicWeight_apx [of t] have b: "\<bar>cw t\<bar> \<le> 123" by (auto simp: apx_def)
  have "\<bar>cw t' - cw t\<bar> \<le> 4 * \<bar>t' - t\<bar>" by (rule cw_lipschitz)
  with t(2) w(2) assms(2) have "\<bar>w - cw t\<bar> \<le> E" by argo
  with w(1) b show ?thesis by (simp add: apx_def t(1))
qed

section \<open>Values of CubicWeight\<close>

lemma fl_0: "fl 0 = Finite 0"
  by (simp add: fl_def MaxFloat64_def)

lemma fl_eval_pos:
  assumes "pow2 e \<le> x" and "x < pow2 (e + 1)" and "- 1022 \<le> e" and "e \<le> 999"
    and "r = of_int (rne (x / pow2 (e - 52))) * pow2 (e - 52)"
  shows "fl x = Finite r"
proof -
  have "0 < x" using assms(1) pow2_pos [of e] by linarith
  moreover have "pow2 (e + 1) \<le> pow2 1000" using assms(4) by (intro pow2_mono) simp
  ultimately have "\<bar>x\<bar> \<le> 2 ^ 1000" using assms(2) by simp
  then have "fl x = Finite (round64 x)" by (rule fl_Finite)
  with round64_eval [OF assms(1-3)] assms(5) show ?thesis by simp
qed

lemma fl_eval_neg:
  assumes "pow2 e \<le> - x" and "- x < pow2 (e + 1)" and "- 1022 \<le> e" and "e \<le> 999"
    and "r = - (of_int (rne (- x / pow2 (e - 52))) * pow2 (e - 52))"
  shows "fl x = Finite r"
proof -
  have "0 < - x" using assms(1) pow2_pos [of e] by linarith
  moreover have "pow2 (e + 1) \<le> pow2 1000" using assms(4) by (intro pow2_mono) simp
  ultimately have "\<bar>x\<bar> \<le> 2 ^ 1000" using assms(2) by simp
  then have "fl x = Finite (round64 x)" by (rule fl_Finite)
  moreover have "round64 x = - round64 (- x)" by (simp add: round64_minus)
  ultimately show ?thesis using round64_eval [OF assms(1-3)] assms(5) by simp
qed

lemma div_fl: "b \<noteq> 0 \<Longrightarrow> fl (a / b) = Finite r \<Longrightarrow> Finite a /
    Finite b = Finite r"
  by simp

lemma CubicWeight_at_0: "CubicWeight (Finite 0) = Finite (2001599834386887 / 2 ^ 51)"
proof -
  have e1: "const64 7 = Finite 7"
    by (simp only: times_float64.simps plus_float64.simps const64_def, rule fl_eval_pos [where e
        = "2"])
       (simp_all add: rne_def Let_def)
  have e2: "const64 (- 12) = Finite (- 12)"
    by (simp only: times_float64.simps plus_float64.simps const64_def, rule fl_eval_neg [where e
        = "3"])
       (simp_all add: rne_def Let_def)
  have e3: "const64 (16 / 3) = Finite (6004799503160661 / 2 ^ 50)"
    by (simp only: times_float64.simps plus_float64.simps const64_def, rule fl_eval_pos [where e
        = "2"])
       (simp_all add: rne_def Let_def)
  have e4: "const64 6 = Finite 6"
    by (simp only: times_float64.simps plus_float64.simps const64_def, rule fl_eval_pos [where e
        = "2"])
       (simp_all add: rne_def Let_def)
  have e5: "Finite 7 * Finite 0 = Finite 0"
    by (simp add: fl_0)
  have e6: "Finite 0 * Finite 0 = Finite 0"
    by (simp add: fl_0)
  have e7: "Finite (- 12) * Finite 0 = Finite 0"
    by (simp add: fl_0)
  have e8: "Finite 0 + Finite 0 = Finite 0"
    by (simp add: fl_0)
  have e9: "Finite 0 + Finite (6004799503160661 / 2 ^ 50) = Finite (6004799503160661 / 2 ^ 50)"
    by (simp only: times_float64.simps plus_float64.simps const64_def, rule fl_eval_pos [where e
        = "2"])
       (simp_all add: rne_def Let_def)
  have e10: "Finite (6004799503160661 / 2 ^ 50) / Finite 6 = Finite (2001599834386887 / 2 ^ 51)"
    by (rule div_fl, simp, rule fl_eval_pos [where e = "- 1"])
       (simp_all add: rne_def Let_def)
  have u: "CubicWeight (Finite 0) = (const64 7 * Finite 0 * Finite 0 * Finite 0 + const64 (- 12)
      * Finite 0 * Finite 0 + const64 (16 / 3)) / const64 6"
    using CubicWeight_unfold [of 0] by simp
  show ?thesis by (simp only: u e1 e2 e3 e4 e5 e6 e7 e8 e9 e10)
qed

lemma CubicWeight_at_1: "CubicWeight (Finite 1) = Finite (31274997412295 / 2 ^ 49)"
proof -
  have e1: "const64 (- (7 / 3)) = Finite (- (5254199565265579 / 2 ^ 51))"
    by (simp only: times_float64.simps plus_float64.simps const64_def, rule fl_eval_neg [where e
        = "1"])
       (simp_all add: rne_def Let_def)
  have e2: "const64 12 = Finite 12"
    by (simp only: times_float64.simps plus_float64.simps const64_def, rule fl_eval_pos [where e
        = "3"])
       (simp_all add: rne_def Let_def)
  have e3: "const64 (- 20) = Finite (- 20)"
    by (simp only: times_float64.simps plus_float64.simps const64_def, rule fl_eval_neg [where e
        = "4"])
       (simp_all add: rne_def Let_def)
  have e4: "const64 (32 / 3) = Finite (6004799503160661 / 2 ^ 49)"
    by (simp only: times_float64.simps plus_float64.simps const64_def, rule fl_eval_pos [where e
        = "3"])
       (simp_all add: rne_def Let_def)
  have e5: "const64 6 = Finite 6"
    by (simp only: times_float64.simps plus_float64.simps const64_def, rule fl_eval_pos [where e
        = "2"])
       (simp_all add: rne_def Let_def)
  have e6: "Finite (- (5254199565265579 / 2 ^ 51)) * Finite 1 = Finite (- (5254199565265579 / 2 ^
      51))"
    by (simp only: times_float64.simps plus_float64.simps const64_def, rule fl_eval_neg [where e
        = "1"])
       (simp_all add: rne_def Let_def)
  have e7: "Finite 12 * Finite 1 = Finite 12"
    by (simp only: times_float64.simps plus_float64.simps const64_def, rule fl_eval_pos [where e
        = "3"])
       (simp_all add: rne_def Let_def)
  have e8: "Finite (- 20) * Finite 1 = Finite (- 20)"
    by (simp only: times_float64.simps plus_float64.simps const64_def, rule fl_eval_neg [where e
        = "4"])
       (simp_all add: rne_def Let_def)
  have e9: "Finite (- (5254199565265579 / 2 ^ 51)) + Finite 12 = Finite (5441849549739349 / 2 ^
      49)"
    by (simp only: times_float64.simps plus_float64.simps const64_def, rule fl_eval_pos [where e
        = "3"])
       (simp_all add: rne_def Let_def)
  have e10: "Finite (5441849549739349 / 2 ^ 49) + Finite (- 20) = Finite (- (5817149518686891 / 2
      ^ 49))"
    by (simp only: times_float64.simps plus_float64.simps const64_def, rule fl_eval_neg [where e
        = "3"])
       (simp_all add: rne_def Let_def)
  have e11: "Finite (- (5817149518686891 / 2 ^ 49)) + Finite (6004799503160661 / 2 ^ 49) = Finite
      (93824992236885 / 2 ^ 48)"
    by (simp only: times_float64.simps plus_float64.simps const64_def, rule fl_eval_pos [where e
        = "- 2"])
       (simp_all add: rne_def Let_def)
  have e12: "Finite (93824992236885 / 2 ^ 48) / Finite 6 = Finite (31274997412295 / 2 ^ 49)"
    by (rule div_fl, simp, rule fl_eval_pos [where e = "- 5"])
       (simp_all add: rne_def Let_def)
  have u: "CubicWeight (Finite 1) = (const64 (- (7 / 3)) * Finite 1 * Finite 1 * Finite 1 +
      const64 12 * Finite 1 * Finite 1 + const64 (- 20) * Finite 1 + const64 (32 / 3)) / const64
      6"
    using CubicWeight_unfold [of 1] by simp
  show ?thesis by (simp only: u e1 e2 e3 e4 e5 e6 e7 e8 e9 e10 e11 e12)
qed

lemma weight_sum_at_0:
  "CubicWeight (Finite (- 1)) + CubicWeight (Finite 0) + CubicWeight (Finite 1) + CubicWeight
      (Finite 2) = Finite (2251799813685247 / 2 ^ 51)"
proof -
  have e1: "Finite (31274997412295 / 2 ^ 49) + Finite (2001599834386887 / 2 ^ 51) = Finite
      (2126699824036067 / 2 ^ 51)"
    by (simp only: times_float64.simps plus_float64.simps const64_def, rule fl_eval_pos [where e
        = "- 1"])
       (simp_all add: rne_def Let_def)
  have e2: "Finite (2126699824036067 / 2 ^ 51) + Finite (31274997412295 / 2 ^ 49) = Finite
      (2251799813685247 / 2 ^ 51)"
    by (simp only: times_float64.simps plus_float64.simps const64_def, rule fl_eval_pos [where e
        = "- 1"])
       (simp_all add: rne_def Let_def)
  have e3: "Finite (2251799813685247 / 2 ^ 51) + Finite 0 = Finite (2251799813685247 / 2 ^ 51)"
    by (simp only: times_float64.simps plus_float64.simps const64_def, rule fl_eval_pos [where e
        = "- 1"])
       (simp_all add: rne_def Let_def)
  have m: "CubicWeight (Finite (- 1)) = CubicWeight (Finite 1)"
    by (simp add: CubicWeight_unfold)
  have t: "CubicWeight (Finite 2) = Finite 0"
    by (simp add: CubicWeight_unfold)
  show ?thesis by (simp only: m t CubicWeight_at_0 CubicWeight_at_1 e1 e2 e3)
qed

lemma round64_8_9: "round64 (8 / 9) = 2001599834386887 / 2 ^ 51"
  by (subst round64_eval [where e = "- 1"]) (simp_all add: rne_def Let_def)

lemma round64_1_18: "round64 (1 / 18) = 2001599834386887 / 2 ^ 55"
  by (subst round64_eval [where e = "- 5"]) (simp_all add: rne_def Let_def)

section \<open>Kernel facts\<close>

lemma cw_bound: "\<bar>cw t\<bar> \<le> 1"
proof -
  define s where "s = \<bar>t\<bar>"
  have s0: "0 \<le> s" by (simp add: s_def)
  consider "s < 1" | "1 \<le> s" "s < 2" | "2 \<le> s" by linarith
  then show ?thesis
  proof cases
    case 1
    have ss: "s * s \<le> s" using s0 1 by (simp add: mult_left_le)
    have "0 \<le> (1 - s) * (5 + 5 * s - 7 * (s * s))"
      using 1 s0 ss by (intro mult_nonneg_nonneg) linarith+
    also have "(1 - s) * (5 + 5 * s - 7 * (s * s)) = 7 * s ^ 3 - 12 * s ^ 2 + 5"
      by (simp add: power3_eq_cube power2_eq_square algebra_simps)
    finally have lo: "- 5 \<le> 7 * s ^ 3 - 12 * s ^ 2" by linarith
    have "0 \<le> (s * s) * (12 - 7 * s)" using 1 s0 by (intro mult_nonneg_nonneg) simp_all
    also have "(s * s) * (12 - 7 * s) = 12 * s ^ 2 - 7 * s ^ 3"
      by (simp add: power3_eq_cube power2_eq_square algebra_simps)
    finally have hi: "7 * s ^ 3 - 12 * s ^ 2 \<le> 0" by linarith
    have "cw t = (7 * s ^ 3 - 12 * s ^ 2 + 16 / 3) / 6"
      using 1 by (simp add: cw_def Let_def s_def)
    with lo hi show ?thesis by simp
  next
    case 2
    define q where "q = (2 - s) * (2 - s)"
    have q: "0 \<le> q" "q \<le> 1"
    proof -
      show "0 \<le> q" unfolding q_def by simp
      have "(2 - s) * (2 - s) \<le> 1 * 1" using 2 by (intro mult_mono) simp_all
      then show "q \<le> 1" by (simp add: q_def)
    qed
    have r: "\<bar>s - 8 / 7\<bar> \<le> 1" using 2 by (simp add: abs_le_iff)
    have "\<bar>q * (s - 8 / 7)\<bar> \<le> 1 * 1"
      unfolding abs_mult using q r by (intro mult_mono) simp_all
    moreover have "- (7 / 3) * s ^ 3 + 12 * s ^ 2 - 20 * s + 32 / 3 = - (7 / 3) * (q * (s - 8 /
        7))"
      unfolding q_def by (simp add: power3_eq_cube power2_eq_square field_simps)
    ultimately have "\<bar>- (7 / 3) * s ^ 3 + 12 * s ^ 2 - 20 * s + 32 / 3\<bar> \<le> 7 / 3"
      by (simp add: abs_mult)
    then have "\<bar>(- (7 / 3) * s ^ 3 + 12 * s ^ 2 - 20 * s + 32 / 3) / 6\<bar> \<le> 1"
      unfolding abs_divide by simp
    moreover have "cw t = (- (7 / 3) * s ^ 3 + 12 * s ^ 2 - 20 * s + 32 / 3) / 6"
      using 2 by (simp add: cw_def Let_def s_def)
    ultimately show ?thesis by (simp only:)
  next
    case 3
    then show ?thesis by (simp add: cw_def s_def)
  qed
qed

lemma CubicWeight_arg1:
  assumes "apx A e x t" and "4 * e + 1088 / 2 ^ 53 \<le> E"
  shows "apx 1 E (CubicWeight x) (cw t)"
  using CubicWeight_apx_arg [OF assms] cw_bound [of t] by (auto simp: apx_def)

lemma CubicWeight_tail: "2 \<le> \<bar>x\<bar> \<Longrightarrow> CubicWeight (Finite x) = Finite
    0"
  by (simp add: CubicWeight_unfold)

lemma CubicWeight_near:
  "\<exists>w. CubicWeight (Finite x) = Finite w \<and> \<bar>w - cw x\<bar> \<le> 1088 / 2 ^ 53"
  using CubicWeight_apx [of x] by (auto simp: apx_def)

lemma weight_apx:
  assumes "0 \<le> d" and "d \<le> 1" and "- 1 \<le> k" and "k \<le> 2"
  shows "apx 1 (1108 / 2 ^ 53) (CubicWeight (float64_of_int k - Finite d)) (cw (of_int k - d))"
proof -
  have "real_of_int (- 1) \<le> real_of_int k" "real_of_int k \<le> real_of_int 2"
    using assms(3,4) by (simp_all only: of_int_le_iff)
  then have k: "\<bar>real_of_int k\<bar> \<le> 2" by simp
  have "\<bar>k\<bar> \<le> 2 ^ 53" using assms(3,4) by simp
  then have f: "float64_of_int k = Finite (of_int k)" by (rule float64_of_int_exact)
  have a: "apx 2 0 (Finite (of_int k)) (of_int k)" using k by (rule apx_exact)
  have b: "apx 1 0 (Finite d) d" using assms(1,2) by (intro apx_exact) simp
  have "apx 3 (5 / 2 ^ 53) (Finite (of_int k) - Finite d) (of_int k - d)"
    by (rule apx_sub [OF a b]) simp_all
  then show ?thesis unfolding f by (rule CubicWeight_arg1) simp
qed

lemma upt_KernelSize: "[0..<KernelSize] = [0, 1, 2, 3]"
  by (simp add: KernelSize_def upt_rec)

lemma cw_partition:
  assumes "0 \<le> d" and "d \<le> 1"
  shows "cw (- 1 - d) + cw (0 - d) + cw (1 - d) + cw (2 - d) = 1"
proof (cases "d = 0 \<or> d = 1")
  case True
  then show ?thesis by (auto simp: cw_def)
next
  case False
  with assms have "0 < d" "d < 1" by auto
  then show ?thesis
    by (simp add: cw_def power3_eq_cube power2_eq_square field_simps)
qed

lemma cw_pieces_continuous:
  "continuous_on UNIV
     (\<lambda>t::real. if t < 1 then (7 * t ^ 3 - 12 * t ^ 2 + 16 / 3) / 6
                 else if t < 2 then (- (7 / 3) * t ^ 3 + 12 * t ^ 2 - 20 * t + 32 / 3) / 6
                 else 0)"
proof -
  have eq2: "{t::real. t \<le> 2} \<union> {t. 2 \<le> t} = UNIV" by auto
  have eq1: "{t::real. t \<le> 1} \<union> {t. 1 \<le> t} = UNIV" by auto
  have "continuous_on ({t. t \<le> 2} \<union> {t. 2 \<le> t})
     (\<lambda>t::real. if t < 2 then (- (7 / 3) * t ^ 3 + 12 * t ^ 2 - 20 * t + 32 / 3) / 6 else
         0)"
    by (rule continuous_on_If) (auto intro!: continuous_intros simp: closed_Collect_le)
  then have tail: "continuous_on UNIV
     (\<lambda>t::real. if t < 2 then (- (7 / 3) * t ^ 3 + 12 * t ^ 2 - 20 * t + 32 / 3) / 6 else
         0)"
    unfolding eq2 .
  have "continuous_on ({t. t \<le> 1} \<union> {t. 1 \<le> t})
     (\<lambda>t::real. if t < 1 then (7 * t ^ 3 - 12 * t ^ 2 + 16 / 3) / 6
                 else if t < 2 then (- (7 / 3) * t ^ 3 + 12 * t ^ 2 - 20 * t + 32 / 3) / 6
                 else 0)"
  proof (rule continuous_on_If)
    show "continuous_on {t. 1 \<le> t}
       (\<lambda>t::real. if t < 2 then (- (7 / 3) * t ^ 3 + 12 * t ^ 2 - 20 * t + 32 / 3) / 6
           else 0)"
      by (rule continuous_on_subset [OF tail]) simp
  qed (auto intro!: continuous_intros simp: closed_Collect_le)
  then show ?thesis unfolding eq1 .
qed

lemma cw_isCont: "isCont cw x"
proof -
  let ?g = "\<lambda>t::real. if t < 1 then (7 * t ^ 3 - 12 * t ^ 2 + 16 / 3) / 6
                 else if t < 2 then (- (7 / 3) * t ^ 3 + 12 * t ^ 2 - 20 * t + 32 / 3) / 6
                 else 0"
  have "continuous_on UNIV (?g \<circ> abs)"
    by (rule continuous_on_compose)
       (auto intro!: continuous_intros continuous_on_subset [OF cw_pieces_continuous])
  moreover have "cw = ?g \<circ> abs"
    by (auto simp: cw_def fun_eq_iff Let_def)
  ultimately have "continuous_on UNIV cw" by simp
  then show ?thesis by (simp add: continuous_on_eq_continuous_at)
qed

lemma trunc_of_int: "trunc (of_int i) = i"
  by (simp add: trunc_def)

lemma trunc_mono:
  assumes "a \<le> b"
  shows "trunc a \<le> trunc b"
proof -
  consider "0 \<le> a" | "a < 0" "0 \<le> b" | "b < 0" by linarith
  then show ?thesis
  proof cases
    case 1
    with assms have "0 \<le> b" by linarith
    with 1 assms show ?thesis by (simp add: trunc_def floor_mono)
  next
    case 2
    then have "\<lceil>a\<rceil> \<le> 0" "0 \<le> \<lfloor>b\<rfloor>" by (simp_all add:
        ceiling_le_iff)
    then have "\<lceil>a\<rceil> \<le> \<lfloor>b\<rfloor>" by (rule order_trans)
    with 2 show ?thesis by (simp only: trunc_def) simp
  next
    case 3
    with assms have "a < 0" by linarith
    with 3 assms show ?thesis by (simp add: trunc_def ceiling_mono)
  qed
qed

lemma unat_uint8: "0 \<le> i \<Longrightarrow> i \<le> 255 \<Longrightarrow> unat (word_of_int i
    :: 8 word) = nat i"
  by (simp add: unsigned_of_int take_bit_int_eq_self)

lemma unat_uint16: "0 \<le> i \<Longrightarrow> i \<le> 65535 \<Longrightarrow> unat (word_of_int
    i :: 16 word) = nat i"
  by (simp add: unsigned_of_int take_bit_int_eq_self)

lemma round64_one_half: "round64 (1 / 2) = 1 / 2"
  using round64_half [of 1] by simp

lemma plus_half:
  assumes "\<bar>v\<bar> \<le> 2 ^ 999"
  shows "fl (v + 1 / 2) = Finite (round64 (v + 1 / 2))"
proof -
  have "(2::real) ^ 999 + 1 / 2 \<le> 2 ^ 1000" by simp
  with assms have "\<bar>v + 1 / 2\<bar> \<le> 2 ^ 1000" by linarith
  then show ?thesis by (rule fl_Finite)
qed

lemma ClampUint8_Finite:
  "unat (ClampUint8 (Finite v)) = nat (max 0 (min 255 (trunc (round64 (v + 1 / 2)))))"
proof -
  consider "v < 0" | "255 < v" | "0 \<le> v" "v \<le> 255" by linarith
  then show ?thesis
  proof cases
    case 1
    then have "round64 (v + 1 / 2) \<le> round64 (1 / 2)" by (intro round64_mono) simp
    then have "trunc (round64 (v + 1 / 2)) \<le> trunc (1 / 2)"
      unfolding round64_one_half by (rule trunc_mono)
    then have "trunc (round64 (v + 1 / 2)) \<le> 0" by (simp add: trunc_def)
    with 1 show ?thesis by (simp add: ClampUint8_def)
  next
    case 2
    then have "round64 (511 / 2) \<le> round64 (v + 1 / 2)" by (intro round64_mono) simp
    moreover have "round64 (511 / 2) = 511 / 2" using round64_half [of 511] by simp
    ultimately have "trunc (511 / 2) \<le> trunc (round64 (v + 1 / 2))"
      by (intro trunc_mono) simp
    then have "255 \<le> trunc (round64 (v + 1 / 2))" by (simp add: trunc_def)
    with 2 show ?thesis by (simp add: ClampUint8_def MaxUint8_def)
  next
    case 3
    have "round64 (1 / 2) \<le> round64 (v + 1 / 2)" using 3 by (intro round64_mono) simp
    then have "trunc (1 / 2) \<le> trunc (round64 (v + 1 / 2))"
      unfolding round64_one_half by (rule trunc_mono)
    then have lo: "0 \<le> trunc (round64 (v + 1 / 2))" by (simp add: trunc_def)
    have "round64 (v + 1 / 2) \<le> round64 (511 / 2)" using 3 by (intro round64_mono) simp
    moreover have "round64 (511 / 2) = 511 / 2" using round64_half [of 511] by simp
    ultimately have "trunc (round64 (v + 1 / 2)) \<le> trunc (511 / 2)"
      by (intro trunc_mono) simp
    then have hi: "trunc (round64 (v + 1 / 2)) \<le> 255" by (simp add: trunc_def)
    have "\<bar>v\<bar> \<le> 2 ^ 999" using 3 by simp
    note p = plus_half [OF this]
    from 3 lo hi show ?thesis
      by (simp add: ClampUint8_def MaxUint8_def uint8_of_float64_def unat_uint8 p)
  qed
qed

lemma ClampUint16_Finite:
  "unat (ClampUint16 (Finite v)) = nat (max 0 (min 65535 (trunc (round64 (v + 1 / 2)))))"
proof -
  consider "v < 0" | "65535 < v" | "0 \<le> v" "v \<le> 65535" by linarith
  then show ?thesis
  proof cases
    case 1
    then have "round64 (v + 1 / 2) \<le> round64 (1 / 2)" by (intro round64_mono) simp
    then have "trunc (round64 (v + 1 / 2)) \<le> trunc (1 / 2)"
      unfolding round64_one_half by (rule trunc_mono)
    then have "trunc (round64 (v + 1 / 2)) \<le> 0" by (simp add: trunc_def)
    with 1 show ?thesis by (simp add: ClampUint16_def)
  next
    case 2
    then have "round64 (131071 / 2) \<le> round64 (v + 1 / 2)" by (intro round64_mono) simp
    moreover have "round64 (131071 / 2) = 131071 / 2" using round64_half [of 131071] by simp
    ultimately have "trunc (131071 / 2) \<le> trunc (round64 (v + 1 / 2))"
      by (intro trunc_mono) simp
    then have "65535 \<le> trunc (round64 (v + 1 / 2))" by (simp add: trunc_def)
    with 2 show ?thesis by (simp add: ClampUint16_def MaxUint16_def)
  next
    case 3
    have "round64 (1 / 2) \<le> round64 (v + 1 / 2)" using 3 by (intro round64_mono) simp
    then have "trunc (1 / 2) \<le> trunc (round64 (v + 1 / 2))"
      unfolding round64_one_half by (rule trunc_mono)
    then have lo: "0 \<le> trunc (round64 (v + 1 / 2))" by (simp add: trunc_def)
    have "round64 (v + 1 / 2) \<le> round64 (131071 / 2)" using 3 by (intro round64_mono) simp
    moreover have "round64 (131071 / 2) = 131071 / 2" using round64_half [of 131071] by simp
    ultimately have "trunc (round64 (v + 1 / 2)) \<le> trunc (131071 / 2)"
      by (intro trunc_mono) simp
    then have hi: "trunc (round64 (v + 1 / 2)) \<le> 65535" by (simp add: trunc_def)
    have "\<bar>v\<bar> \<le> 2 ^ 999" using 3 by simp
    note p = plus_half [OF this]
    from 3 lo hi show ?thesis
      by (simp add: ClampUint16_def MaxUint16_def uint16_of_float64_def unat_uint16 p)
  qed
qed

lemma ClampUint8_near:
  assumes "\<bar>v - of_nat n\<bar> \<le> 1 / 4" and "n \<le> 255"
  shows "ClampUint8 (Finite v) = of_nat n"
proof -
  have e1: "round64 (of_int (4 * int n + 1) * pow2 (- 2)) = of_int (4 * int n + 1) * pow2 (- 2)"
    using assms(2) by (intro round64_exact) simp_all
  have e3: "round64 (of_int (4 * int n + 3) * pow2 (- 2)) = of_int (4 * int n + 3) * pow2 (- 2)"
    using assms(2) by (intro round64_exact) simp_all
  have v: "real n - 1 / 4 \<le> v" "v \<le> real n + 1 / 4" using assms(1) by linarith+
  have "round64 (of_int (4 * int n + 1) * pow2 (- 2)) \<le> round64 (v + 1 / 2)"
    using v by (intro round64_mono) simp
  then have lo: "real n + 1 / 4 \<le> round64 (v + 1 / 2)" unfolding e1 by simp
  have "round64 (v + 1 / 2) \<le> round64 (of_int (4 * int n + 3) * pow2 (- 2))"
    using v by (intro round64_mono) simp
  then have hi: "round64 (v + 1 / 2) \<le> real n + 3 / 4" unfolding e3 by simp
  have "\<lfloor>round64 (v + 1 / 2)\<rfloor> = int n" using lo hi by (simp add: floor_eq_iff)
  moreover have "0 \<le> round64 (v + 1 / 2)" using lo by linarith
  ultimately have t: "trunc (round64 (v + 1 / 2)) = int n" by (simp add: trunc_def)
  have "unat (ClampUint8 (Finite v)) = n" using assms(2) by (simp add: ClampUint8_Finite t)
  moreover have "of_nat (unat (ClampUint8 (Finite v))) = ClampUint8 (Finite v)"
    by (simp add: of_nat_unat)
  ultimately show ?thesis by simp
qed

lemma CalculateKernelBounds_in_range:
  assumes "n \<le> 2 ^ 53" and "0 \<le> c" and "c < of_int n"
  shows "CalculateKernelBounds (Finite c) n = Inr (\<lfloor>c\<rfloor> - 1, \<lfloor>c\<rfloor> -
      1 + 4)"
proof -
  from assms have "\<lfloor>c\<rfloor> < n" by (simp add: floor_less_iff)
  moreover have "(2::int) ^ 53 < 2 ^ 63" by simp
  ultimately have "\<lfloor>c\<rfloor> < 2 ^ 63" using assms(1) by linarith
  moreover from assms have c0: "0 \<le> \<lfloor>c\<rfloor>" by simp
  moreover have "0 < n" using \<open>\<lfloor>c\<rfloor> < n\<close> c0 by linarith
  then have "\<bar>n\<bar> \<le> 2 ^ 53" using assms(1) by simp
  then have "float64_of_int n = Finite (of_int n)" by (rule float64_of_int_exact)
  ultimately show ?thesis using assms
    by (simp add: CalculateKernelBounds_def Let_def KernelSize_def
        int_of_float64_def trunc_of_int)
qed

lemma frac_offset:
  assumes "0 \<le> c" and "c < 2 ^ 53"
  shows "Finite c - float64_of_int (int_of_float64 (Finite c)) = Finite (round64 (frac c))"
    and "0 \<le> round64 (frac c)" and "round64 (frac c) \<le> 1"
proof -
  have "\<lfloor>c\<rfloor> < 2 ^ 53" using assms(2) by (simp add: floor_less_iff)
  moreover have c0: "0 \<le> \<lfloor>c\<rfloor>" using assms(1) by simp
  ultimately have b: "\<bar>\<lfloor>c\<rfloor>\<bar> \<le> 2 ^ 53" by simp
  have "(2::int) ^ 53 < 2 ^ 63" by simp
  with \<open>\<lfloor>c\<rfloor> < 2 ^ 53\<close> have "\<lfloor>c\<rfloor> < 2 ^ 63" by linarith
  with c0 assms(1) have i: "int_of_float64 (Finite c) = \<lfloor>c\<rfloor>"
    by (simp add: int_of_float64_def trunc_def)
  have f: "0 \<le> frac c" "frac c \<le> 1" by (simp_all add: frac_lt_1 less_imp_le)
  then have "\<bar>frac c\<bar> \<le> 2 ^ 1000" by simp
  then have "fl (frac c) = Finite (round64 (frac c))" by (rule fl_Finite)
  moreover have "c + - real_of_int \<lfloor>c\<rfloor> = frac c" by (simp add: frac_def)
  ultimately show "Finite c - float64_of_int (int_of_float64 (Finite c)) = Finite (round64 (frac
      c))"
    by (simp add: i float64_of_int_exact [OF b] minus_float64_def)
  have "round64 0 \<le> round64 (frac c)" using f(1) by (rule round64_mono)
  then show "0 \<le> round64 (frac c)" by simp
  have "round64 (frac c) \<le> round64 1" using f(2) by (rule round64_mono)
  then show "round64 (frac c) \<le> 1" by simp
qed

lemma round64_repr:
  assumes "0 \<le> x"
  shows "\<exists>m k. round64 x = of_int m * pow2 k \<and> 0 \<le> m \<and> m \<le> 2 ^ 53
      \<and> - 1074 \<le> k"
proof (cases "x = 0")
  case True
  have "round64 x = of_int 0 * pow2 0 \<and> (0::int) \<le> 0 \<and> (0::int) \<le> 2 ^ 53 \<and>
      - 1074 \<le> (0::int)"
    using True by simp
  then show ?thesis by blast
next
  case False
  with assms have x: "0 < x" by simp
  define u where "u = pow2 (expo x - 52)"
  define m where "m = rne (x / u)"
  have u: "0 < u" by (simp add: u_def)
  have r: "round64 x = of_int m * u"
    using x by (simp add: round64_def round_pos_def Let_def m_def u_def)
  have "0 \<le> round_pos x" using x by (rule round_pos_nonneg)
  then have "0 \<le> of_int m * u" using r x by (simp add: round64_def)
  then have "0 \<le> real_of_int m" using u by (simp add: zero_le_mult_iff)
  then have m0: "0 \<le> m" by simp
  have "expo x + 1 = 53 + (expo x - 52)" by linarith
  then have "pow2 (expo x + 1) = pow2 (53 + (expo x - 52))" by (rule arg_cong)
  also have "\<dots> = 2 ^ 53 * u" by (simp only: pow2_add pow2_numeral u_def)
  finally have p: "pow2 (expo x + 1) = 2 ^ 53 * u" .
  have "round_pos x \<le> pow2 (expo x + 1)" using x by (rule round_pos_upper)
  then have "of_int m * u \<le> 2 ^ 53 * u" using r x p by (simp add: round64_def)
  then have "real_of_int m \<le> 2 ^ 53" using u by simp
  then have "real_of_int m \<le> real_of_int (2 ^ 53)" by simp
  then have m1: "m \<le> 2 ^ 53" by (simp only: of_int_le_iff)
  have "- 1022 \<le> expo x" by (simp add: expo_def)
  then have k: "- 1074 \<le> expo x - 52" by simp
  from r m0 m1 k show ?thesis unfolding u_def by blast
qed

lemma frac_repr:
  assumes "c = of_int m * pow2 k" and "0 \<le> m" and "m \<le> 2 ^ 53" and "- 1074 \<le> k"
  shows "round64 (frac c) = frac c"
proof (cases "0 \<le> k")
  case True
  then have "pow2 k = 2 ^ nat k" using pow2_nat [of "nat k"] by simp
  then have "c = of_int (m * 2 ^ nat k)" using assms(1) by simp
  then have "frac c = 0" by (simp only: frac_of_int)
  then show ?thesis by (simp only: round64_0)
next
  case False
  define j where "j = nat (- k)"
  have k: "k = - int j" using False by (simp add: j_def)
  have p: "pow2 k = 1 / 2 ^ j" unfolding k by (rule pow2_neg)
  define r where "r = m mod 2 ^ j"
  have r: "0 \<le> r" "r < 2 ^ j" by (simp_all add: r_def)
  have "r \<le> m" unfolding r_def using assms(2) by (rule zmod_le_nonneg_dividend)
  with assms(3) have r53: "r \<le> 2 ^ 53" by simp
  have c: "c = real_of_int m / real_of_int (2 ^ j)" using assms(1) p by simp
  have "\<lfloor>c\<rfloor> = m div 2 ^ j" unfolding c by (rule floor_divide_of_int_eq)
  then have "frac c = real_of_int m / 2 ^ j - real_of_int (m div 2 ^ j)"
    by (simp add: frac_def c)
  also have "\<dots> = (real_of_int m - real_of_int (m div 2 ^ j) * 2 ^ j) / 2 ^ j"
    by (simp add: diff_divide_distrib)
  also have "real_of_int m - real_of_int (m div 2 ^ j) * 2 ^ j = real_of_int r"
  proof -
    have "m div 2 ^ j * 2 ^ j + r = m" unfolding r_def by (rule div_mult_mod_eq)
    then have "real_of_int m = real_of_int (m div 2 ^ j * 2 ^ j + r)" by simp
    then show ?thesis by simp
  qed
  finally have f: "frac c = of_int r * pow2 k" by (simp add: p)
  show ?thesis
  proof (cases "r < 2 ^ 53")
    case True
    with r(1) have "\<bar>r\<bar> < 2 ^ 53" by simp
    from round64_exact [OF this assms(4)] show ?thesis by (simp only: f)
  next
    case False
    with r53 have "r = 2 ^ 53" by simp
    then have "frac c = pow2 53 * pow2 k" using f by simp
    then have g: "frac c = pow2 (53 + k)" by (simp only: pow2_add)
    have "- 1074 \<le> 53 + k" using assms(4) by simp
    from round64_pow2 [OF this] show ?thesis by (simp only: g)
  qed
qed

lemma round64_repr_any:
  "\<exists>m k. round64 x = of_int m * pow2 k \<and> \<bar>m\<bar> \<le> 2 ^ 53 \<and> - 1074
      \<le> k"
proof (cases "0 \<le> x")
  case True
  from round64_repr [OF this] obtain m k where
    "round64 x = of_int m * pow2 k" "0 \<le> m" "m \<le> 2 ^ 53" "- 1074 \<le> k" by blast
  then have "round64 x = of_int m * pow2 k \<and> \<bar>m\<bar> \<le> 2 ^ 53 \<and> - 1074 \<le>
      k" by simp
  then show ?thesis by blast
next
  case False
  then have "0 \<le> - x" by simp
  from round64_repr [OF this] obtain m k where
    m: "round64 (- x) = of_int m * pow2 k" "0 \<le> m" "m \<le> 2 ^ 53" "- 1074 \<le> k" by blast
  have "round64 x = - round64 (- x)" by (simp add: round64_minus)
  with m have "round64 x = of_int (- m) * pow2 k \<and> \<bar>- m\<bar> \<le> 2 ^ 53 \<and> -
      1074 \<le> k" by simp
  then show ?thesis by blast
qed

lemma times_repr:
  assumes "Finite a * Finite b = Finite c" and "0 \<le> c"
  shows "round64 (frac c) = frac c"
proof -
  from assms(1) have c: "c = round64 (a * b)"
    by (simp add: fl_def Let_def split: if_splits)
  from round64_repr_any [of "a * b"] obtain m k where
    m: "c = of_int m * pow2 k" "\<bar>m\<bar> \<le> 2 ^ 53" "- 1074 \<le> k" unfolding c by blast
  from assms(2) have "0 \<le> real_of_int m * pow2 k" by (simp only: m(1))
  then have "0 \<le> real_of_int m" using pow2_pos [of k] by (auto simp: zero_le_mult_iff)
  then have "0 \<le> m" by simp
  with m show ?thesis by (intro frac_repr [of c m k]) simp_all
qed

section \<open>Interpolation up to rounding\<close>

lemma row_apx:
  assumes "0 \<le> d" and "d \<le> 1"
    and "0 \<le> p0" "p0 \<le> 4294967296" "0 \<le> p1" "p1 \<le> 4294967296" "0 \<le> p2" "p2
        \<le> 4294967296" "0 \<le> p3" "p3 \<le> 4294967296"
  shows "apx (17179869184) (19095424598032 / 2 ^ 53) (Finite 0 + Finite p0 * CubicWeight
      (float64_of_int (- 1) - Finite d) + Finite p1 * CubicWeight (float64_of_int 0 - Finite d) +
      Finite p2 * CubicWeight (float64_of_int 1 - Finite d) + Finite p3 * CubicWeight
      (float64_of_int 2 - Finite d))
           (0 + p0 * cw (of_int (- 1) - d) + p1 * cw (of_int 0 - d) + p2 * cw (of_int 1 - d) + p3
               * cw (of_int 2 - d))"
proof -
  have z: "apx 0 0 (Finite 0) 0" by (rule apx_exact) simp
  have w0: "apx 1 (1108 / 2 ^ 53) (CubicWeight (float64_of_int (- 1) - Finite d)) (cw (of_int (-
      1) - d))"
    using assms by (intro weight_apx) simp_all
  have w1: "apx 1 (1108 / 2 ^ 53) (CubicWeight (float64_of_int 0 - Finite d)) (cw (of_int 0 - d))"
    using assms by (intro weight_apx) simp_all
  have w2: "apx 1 (1108 / 2 ^ 53) (CubicWeight (float64_of_int 1 - Finite d)) (cw (of_int 1 - d))"
    using assms by (intro weight_apx) simp_all
  have w3: "apx 1 (1108 / 2 ^ 53) (CubicWeight (float64_of_int 2 - Finite d)) (cw (of_int 2 - d))"
    using assms by (intro weight_apx) simp_all
  have x0: "apx (4294967296) 0 (Finite p0) p0"
    using assms by (intro apx_exact) simp
  have x1: "apx (4294967296) 0 (Finite p1) p1"
    using assms by (intro apx_exact) simp
  have x2: "apx (4294967296) 0 (Finite p2) p2"
    using assms by (intro apx_exact) simp
  have x3: "apx (4294967296) 0 (Finite p3) p3"
    using assms by (intro apx_exact) simp
  have s1: "apx (4294967296) (4763118731266 / 2 ^ 53) (Finite p0 * CubicWeight (float64_of_int (-
      1) - Finite d)) (p0 * cw (of_int (- 1) - d))"
    by (rule apx_mul [OF x0 w0]) simp_all
  have s2: "apx (4294967296) (4767413698564 / 2 ^ 53) (Finite 0 + Finite p0 * CubicWeight
      (float64_of_int (- 1) - Finite d)) (0 + p0 * cw (of_int (- 1) - d))"
    by (rule apx_add [OF z s1]) simp_all
  have s3: "apx (4294967296) (4763118731266 / 2 ^ 53) (Finite p1 * CubicWeight (float64_of_int 0
      - Finite d)) (p1 * cw (of_int 0 - d))"
    by (rule apx_mul [OF x1 w1]) simp_all
  have s4: "apx (8589934592) (9539122364424 / 2 ^ 53) (Finite 0 + Finite p0 * CubicWeight
      (float64_of_int (- 1) - Finite d) + Finite p1 * CubicWeight (float64_of_int 0 - Finite d))
      (0 + p0 * cw (of_int (- 1) - d) + p1 * cw (of_int 0 - d))"
    by (rule apx_add [OF s2 s3]) simp_all
  have s5: "apx (4294967296) (4763118731266 / 2 ^ 53) (Finite p2 * CubicWeight (float64_of_int 1
      - Finite d)) (p2 * cw (of_int 1 - d))"
    by (rule apx_mul [OF x2 w2]) simp_all
  have s6: "apx (12884901888) (14315125997580 / 2 ^ 53) (Finite 0 + Finite p0 * CubicWeight
      (float64_of_int (- 1) - Finite d) + Finite p1 * CubicWeight (float64_of_int 0 - Finite d) +
      Finite p2 * CubicWeight (float64_of_int 1 - Finite d)) (0 + p0 * cw (of_int (- 1) - d) + p1
      * cw (of_int 0 - d) + p2 * cw (of_int 1 - d))"
    by (rule apx_add [OF s4 s5]) simp_all
  have s7: "apx (4294967296) (4763118731266 / 2 ^ 53) (Finite p3 * CubicWeight (float64_of_int 2
      - Finite d)) (p3 * cw (of_int 2 - d))"
    by (rule apx_mul [OF x3 w3]) simp_all
  have s8: "apx (17179869184) (19095424598032 / 2 ^ 53) (Finite 0 + Finite p0 * CubicWeight
      (float64_of_int (- 1) - Finite d) + Finite p1 * CubicWeight (float64_of_int 0 - Finite d) +
      Finite p2 * CubicWeight (float64_of_int 1 - Finite d) + Finite p3 * CubicWeight
      (float64_of_int 2 - Finite d)) (0 + p0 * cw (of_int (- 1) - d) + p1 * cw (of_int 0 - d) +
      p2 * cw (of_int 1 - d) + p3 * cw (of_int 2 - d))"
    by (rule apx_add [OF s6 s7]) simp_all
  show ?thesis by (rule s8)
qed

lemma col_apx:
  assumes "0 \<le> d" and "d \<le> 1"
    and r0: "apx (17179869184) (19095424598032 / 2 ^ 53) R0 r0" and r1: "apx (17179869184)
        (19095424598032 / 2 ^ 53) R1 r1"
    and r2: "apx (17179869184) (19095424598032 / 2 ^ 53) R2 r2" and r3: "apx (17179869184)
        (19095424598032 / 2 ^ 53) R3 r3"
  shows "apx (68719476736) (229145095176336 / 2 ^ 53) (Finite 0 + R0 * CubicWeight
      (float64_of_int (- 1) - Finite d) + R1 * CubicWeight (float64_of_int 0 - Finite d) + R2 *
      CubicWeight (float64_of_int 1 - Finite d) + R3 * CubicWeight (float64_of_int 2 - Finite d))
           (0 + r0 * cw (of_int (- 1) - d) + r1 * cw (of_int 0 - d) + r2 * cw (of_int 1 - d) + r3
               * cw (of_int 2 - d))"
proof -
  have z: "apx 0 0 (Finite 0) 0" by (rule apx_exact) simp
  have w0: "apx 1 (1108 / 2 ^ 53) (CubicWeight (float64_of_int (- 1) - Finite d)) (cw (of_int (-
      1) - d))"
    using assms by (intro weight_apx) simp_all
  have w1: "apx 1 (1108 / 2 ^ 53) (CubicWeight (float64_of_int 0 - Finite d)) (cw (of_int 0 - d))"
    using assms by (intro weight_apx) simp_all
  have w2: "apx 1 (1108 / 2 ^ 53) (CubicWeight (float64_of_int 1 - Finite d)) (cw (of_int 1 - d))"
    using assms by (intro weight_apx) simp_all
  have w3: "apx 1 (1108 / 2 ^ 53) (CubicWeight (float64_of_int 2 - Finite d)) (cw (of_int 2 - d))"
    using assms by (intro weight_apx) simp_all
  have s1: "apx (17179869184) (57243324121122 / 2 ^ 53) (R0 * CubicWeight (float64_of_int (- 1) -
      Finite d)) (r0 * cw (of_int (- 1) - d))"
    by (rule apx_mul [OF r0 w0]) simp_all
  have s2: "apx (17179869184) (57260503990308 / 2 ^ 53) (Finite 0 + R0 * CubicWeight
      (float64_of_int (- 1) - Finite d)) (0 + r0 * cw (of_int (- 1) - d))"
    by (rule apx_add [OF z s1]) simp_all
  have s3: "apx (17179869184) (57243324121122 / 2 ^ 53) (R1 * CubicWeight (float64_of_int 0 -
      Finite d)) (r1 * cw (of_int 0 - d))"
    by (rule apx_mul [OF r1 w1]) simp_all
  have s4: "apx (34359738368) (114538187849800 / 2 ^ 53) (Finite 0 + R0 * CubicWeight
      (float64_of_int (- 1) - Finite d) + R1 * CubicWeight (float64_of_int 0 - Finite d)) (0 + r0
      * cw (of_int (- 1) - d) + r1 * cw (of_int 0 - d))"
    by (rule apx_add [OF s2 s3]) simp_all
  have s5: "apx (17179869184) (57243324121122 / 2 ^ 53) (R2 * CubicWeight (float64_of_int 1 -
      Finite d)) (r2 * cw (of_int 1 - d))"
    by (rule apx_mul [OF r2 w2]) simp_all
  have s6: "apx (51539607552) (171833051578476 / 2 ^ 53) (Finite 0 + R0 * CubicWeight
      (float64_of_int (- 1) - Finite d) + R1 * CubicWeight (float64_of_int 0 - Finite d) + R2 *
      CubicWeight (float64_of_int 1 - Finite d)) (0 + r0 * cw (of_int (- 1) - d) + r1 * cw
      (of_int 0 - d) + r2 * cw (of_int 1 - d))"
    by (rule apx_add [OF s4 s5]) simp_all
  have s7: "apx (17179869184) (57243324121122 / 2 ^ 53) (R3 * CubicWeight (float64_of_int 2 -
      Finite d)) (r3 * cw (of_int 2 - d))"
    by (rule apx_mul [OF r3 w3]) simp_all
  have s8: "apx (68719476736) (229145095176336 / 2 ^ 53) (Finite 0 + R0 * CubicWeight
      (float64_of_int (- 1) - Finite d) + R1 * CubicWeight (float64_of_int 0 - Finite d) + R2 *
      CubicWeight (float64_of_int 1 - Finite d) + R3 * CubicWeight (float64_of_int 2 - Finite d))
      (0 + r0 * cw (of_int (- 1) - d) + r1 * cw (of_int 0 - d) + r2 * cw (of_int 1 - d) + r3 * cw
      (of_int 2 - d))"
    by (rule apx_add [OF s6 s7]) simp_all
  show ?thesis by (rule s8)
qed

lemma InterpolateBicubic_apx:
  assumes "0 \<le> dx" and "dx \<le> 1" and "0 \<le> dy" and "dy \<le> 1"
    and "0 \<le> p00" "p00 \<le> 4294967296" "0 \<le> p01" "p01 \<le> 4294967296" "0 \<le> p02"
        "p02 \<le> 4294967296" "0 \<le> p03" "p03 \<le> 4294967296" "0 \<le> p10" "p10 \<le>
        4294967296" "0 \<le> p11" "p11 \<le> 4294967296" "0 \<le> p12" "p12 \<le> 4294967296" "0
        \<le> p13" "p13 \<le> 4294967296" "0 \<le> p20" "p20 \<le> 4294967296" "0 \<le> p21" "p21
        \<le> 4294967296" "0 \<le> p22" "p22 \<le> 4294967296" "0 \<le> p23" "p23 \<le>
        4294967296" "0 \<le> p30" "p30 \<le> 4294967296" "0 \<le> p31" "p31 \<le> 4294967296" "0
        \<le> p32" "p32 \<le> 4294967296" "0 \<le> p33" "p33 \<le> 4294967296"
  shows "\<exists>v. InterpolateBicubic [[Finite p00, Finite p01, Finite p02, Finite p03],
      [Finite p10, Finite p11, Finite p12, Finite p13], [Finite p20, Finite p21, Finite p22,
      Finite p23], [Finite p30, Finite p31, Finite p32, Finite p33]] (Finite dx) (Finite dy) =
      Inr (Finite v) \<and>
           \<bar>v - interp [[p00, p01, p02, p03], [p10, p11, p12, p13], [p20, p21, p22, p23],
               [p30, p31, p32, p33]] dx dy\<bar> \<le> 1 / 16"
proof -
  have r0: "apx (17179869184) (19095424598032 / 2 ^ 53) (Finite 0 + Finite p00 * CubicWeight
      (float64_of_int (- 1) - Finite dx) + Finite p01 * CubicWeight (float64_of_int 0 - Finite
      dx) + Finite p02 * CubicWeight (float64_of_int 1 - Finite dx) + Finite p03 * CubicWeight
      (float64_of_int 2 - Finite dx))
      (0 + p00 * cw (of_int (- 1) - dx) + p01 * cw (of_int 0 - dx) + p02 * cw (of_int 1 - dx) +
          p03 * cw (of_int 2 - dx))"
    using assms by (intro row_apx) simp_all
  have r1: "apx (17179869184) (19095424598032 / 2 ^ 53) (Finite 0 + Finite p10 * CubicWeight
      (float64_of_int (- 1) - Finite dx) + Finite p11 * CubicWeight (float64_of_int 0 - Finite
      dx) + Finite p12 * CubicWeight (float64_of_int 1 - Finite dx) + Finite p13 * CubicWeight
      (float64_of_int 2 - Finite dx))
      (0 + p10 * cw (of_int (- 1) - dx) + p11 * cw (of_int 0 - dx) + p12 * cw (of_int 1 - dx) +
          p13 * cw (of_int 2 - dx))"
    using assms by (intro row_apx) simp_all
  have r2: "apx (17179869184) (19095424598032 / 2 ^ 53) (Finite 0 + Finite p20 * CubicWeight
      (float64_of_int (- 1) - Finite dx) + Finite p21 * CubicWeight (float64_of_int 0 - Finite
      dx) + Finite p22 * CubicWeight (float64_of_int 1 - Finite dx) + Finite p23 * CubicWeight
      (float64_of_int 2 - Finite dx))
      (0 + p20 * cw (of_int (- 1) - dx) + p21 * cw (of_int 0 - dx) + p22 * cw (of_int 1 - dx) +
          p23 * cw (of_int 2 - dx))"
    using assms by (intro row_apx) simp_all
  have r3: "apx (17179869184) (19095424598032 / 2 ^ 53) (Finite 0 + Finite p30 * CubicWeight
      (float64_of_int (- 1) - Finite dx) + Finite p31 * CubicWeight (float64_of_int 0 - Finite
      dx) + Finite p32 * CubicWeight (float64_of_int 1 - Finite dx) + Finite p33 * CubicWeight
      (float64_of_int 2 - Finite dx))
      (0 + p30 * cw (of_int (- 1) - dx) + p31 * cw (of_int 0 - dx) + p32 * cw (of_int 1 - dx) +
          p33 * cw (of_int 2 - dx))"
    using assms by (intro row_apx) simp_all
  have "apx (68719476736) (229145095176336 / 2 ^ 53) (Finite 0 + (Finite 0 + Finite p00 *
      CubicWeight (float64_of_int (- 1) - Finite dx) + Finite p01 * CubicWeight (float64_of_int 0
      - Finite dx) + Finite p02 * CubicWeight (float64_of_int 1 - Finite dx) + Finite p03 *
      CubicWeight (float64_of_int 2 - Finite dx)) * CubicWeight (float64_of_int (- 1) - Finite
      dy) + (Finite 0 + Finite p10 * CubicWeight (float64_of_int (- 1) - Finite dx) + Finite p11
      * CubicWeight (float64_of_int 0 - Finite dx) + Finite p12 * CubicWeight (float64_of_int 1 -
      Finite dx) + Finite p13 * CubicWeight (float64_of_int 2 - Finite dx)) * CubicWeight
      (float64_of_int 0 - Finite dy) + (Finite 0 + Finite p20 * CubicWeight (float64_of_int (- 1)
      - Finite dx) + Finite p21 * CubicWeight (float64_of_int 0 - Finite dx) + Finite p22 *
      CubicWeight (float64_of_int 1 - Finite dx) + Finite p23 * CubicWeight (float64_of_int 2 -
      Finite dx)) * CubicWeight (float64_of_int 1 - Finite dy) + (Finite 0 + Finite p30 *
      CubicWeight (float64_of_int (- 1) - Finite dx) + Finite p31 * CubicWeight (float64_of_int 0
      - Finite dx) + Finite p32 * CubicWeight (float64_of_int 1 - Finite dx) + Finite p33 *
      CubicWeight (float64_of_int 2 - Finite dx)) * CubicWeight (float64_of_int 2 - Finite dy))
      (0 + (0 + p00 * cw (of_int (- 1) - dx) + p01 * cw (of_int 0 - dx) + p02 * cw (of_int 1 -
          dx) + p03 * cw (of_int 2 - dx)) * cw (of_int (- 1) - dy) + (0 + p10 * cw (of_int (- 1)
          - dx) + p11 * cw (of_int 0 - dx) + p12 * cw (of_int 1 - dx) + p13 * cw (of_int 2 - dx))
          * cw (of_int 0 - dy) + (0 + p20 * cw (of_int (- 1) - dx) + p21 * cw (of_int 0 - dx) +
          p22 * cw (of_int 1 - dx) + p23 * cw (of_int 2 - dx)) * cw (of_int 1 - dy) + (0 + p30 *
          cw (of_int (- 1) - dx) + p31 * cw (of_int 0 - dx) + p32 * cw (of_int 1 - dx) + p33 * cw
          (of_int 2 - dx)) * cw (of_int 2 - dy))"
    using assms(3,4) by (rule col_apx [OF _ _ r0 r1 r2 r3])
  then obtain v where v: "Finite 0 + (Finite 0 + Finite p00 * CubicWeight (float64_of_int (- 1) -
      Finite dx) + Finite p01 * CubicWeight (float64_of_int 0 - Finite dx) + Finite p02 *
      CubicWeight (float64_of_int 1 - Finite dx) + Finite p03 * CubicWeight (float64_of_int 2 -
      Finite dx)) * CubicWeight (float64_of_int (- 1) - Finite dy) + (Finite 0 + Finite p10 *
      CubicWeight (float64_of_int (- 1) - Finite dx) + Finite p11 * CubicWeight (float64_of_int 0
      - Finite dx) + Finite p12 * CubicWeight (float64_of_int 1 - Finite dx) + Finite p13 *
      CubicWeight (float64_of_int 2 - Finite dx)) * CubicWeight (float64_of_int 0 - Finite dy) +
      (Finite 0 + Finite p20 * CubicWeight (float64_of_int (- 1) - Finite dx) + Finite p21 *
      CubicWeight (float64_of_int 0 - Finite dx) + Finite p22 * CubicWeight (float64_of_int 1 -
      Finite dx) + Finite p23 * CubicWeight (float64_of_int 2 - Finite dx)) * CubicWeight
      (float64_of_int 1 - Finite dy) + (Finite 0 + Finite p30 * CubicWeight (float64_of_int (- 1)
      - Finite dx) + Finite p31 * CubicWeight (float64_of_int 0 - Finite dx) + Finite p32 *
      CubicWeight (float64_of_int 1 - Finite dx) + Finite p33 * CubicWeight (float64_of_int 2 -
      Finite dx)) * CubicWeight (float64_of_int 2 - Finite dy) = Finite v"
      "\<bar>v - (0 + (0 + p00 * cw (of_int (- 1) - dx) + p01 * cw (of_int 0 - dx) + p02 * cw
          (of_int 1 - dx) + p03 * cw (of_int 2 - dx)) * cw (of_int (- 1) - dy) + (0 + p10 * cw
          (of_int (- 1) - dx) + p11 * cw (of_int 0 - dx) + p12 * cw (of_int 1 - dx) + p13 * cw
          (of_int 2 - dx)) * cw (of_int 0 - dy) + (0 + p20 * cw (of_int (- 1) - dx) + p21 * cw
          (of_int 0 - dx) + p22 * cw (of_int 1 - dx) + p23 * cw (of_int 2 - dx)) * cw (of_int 1 -
          dy) + (0 + p30 * cw (of_int (- 1) - dx) + p31 * cw (of_int 0 - dx) + p32 * cw (of_int 1
          - dx) + p33 * cw (of_int 2 - dx)) * cw (of_int 2 - dy))\<bar> \<le> 229145095176336 / 2
          ^ 53"
    by (auto simp: apx_def)
  have i: "interp [[p00, p01, p02, p03], [p10, p11, p12, p13], [p20, p21, p22, p23], [p30, p31,
      p32, p33]] dx dy = 0 + (0 + p00 * cw (of_int (- 1) - dx) + p01 * cw (of_int 0 - dx) + p02 *
      cw (of_int 1 - dx) + p03 * cw (of_int 2 - dx)) * cw (of_int (- 1) - dy) + (0 + p10 * cw
      (of_int (- 1) - dx) + p11 * cw (of_int 0 - dx) + p12 * cw (of_int 1 - dx) + p13 * cw
      (of_int 2 - dx)) * cw (of_int 0 - dy) + (0 + p20 * cw (of_int (- 1) - dx) + p21 * cw
      (of_int 0 - dx) + p22 * cw (of_int 1 - dx) + p23 * cw (of_int 2 - dx)) * cw (of_int 1 - dy)
      + (0 + p30 * cw (of_int (- 1) - dx) + p31 * cw (of_int 0 - dx) + p32 * cw (of_int 1 - dx) +
      p33 * cw (of_int 2 - dx)) * cw (of_int 2 - dy)"
    by (simp add: interp_def)
  have "(229145095176336 / 2 ^ 53 :: real) \<le> 1 / 16" by simp
  with v(2) have e: "\<bar>v - interp [[p00, p01, p02, p03], [p10, p11, p12, p13], [p20, p21,
      p22, p23], [p30, p31, p32, p33]] dx dy\<bar> \<le> 1 / 16"
    unfolding i by linarith
  have "InterpolateBicubic [[Finite p00, Finite p01, Finite p02, Finite p03], [Finite p10, Finite
      p11, Finite p12, Finite p13], [Finite p20, Finite p21, Finite p22, Finite p23], [Finite
      p30, Finite p31, Finite p32, Finite p33]] (Finite dx) (Finite dy)
      = (if IsNaN (Finite 0 + (Finite 0 + Finite p00 * CubicWeight (float64_of_int (- 1) - Finite
          dx) + Finite p01 * CubicWeight (float64_of_int 0 - Finite dx) + Finite p02 *
          CubicWeight (float64_of_int 1 - Finite dx) + Finite p03 * CubicWeight (float64_of_int 2
          - Finite dx)) * CubicWeight (float64_of_int (- 1) - Finite dy) + (Finite 0 + Finite p10
          * CubicWeight (float64_of_int (- 1) - Finite dx) + Finite p11 * CubicWeight
          (float64_of_int 0 - Finite dx) + Finite p12 * CubicWeight (float64_of_int 1 - Finite
          dx) + Finite p13 * CubicWeight (float64_of_int 2 - Finite dx)) * CubicWeight
          (float64_of_int 0 - Finite dy) + (Finite 0 + Finite p20 * CubicWeight (float64_of_int
          (- 1) - Finite dx) + Finite p21 * CubicWeight (float64_of_int 0 - Finite dx) + Finite
          p22 * CubicWeight (float64_of_int 1 - Finite dx) + Finite p23 * CubicWeight
          (float64_of_int 2 - Finite dx)) * CubicWeight (float64_of_int 1 - Finite dy) + (Finite
          0 + Finite p30 * CubicWeight (float64_of_int (- 1) - Finite dx) + Finite p31 *
          CubicWeight (float64_of_int 0 - Finite dx) + Finite p32 * CubicWeight (float64_of_int 1
          - Finite dx) + Finite p33 * CubicWeight (float64_of_int 2 - Finite dx)) * CubicWeight
          (float64_of_int 2 - Finite dy)) \<or> IsInf (Finite 0 + (Finite 0 + Finite p00 *
          CubicWeight (float64_of_int (- 1) - Finite dx) + Finite p01 * CubicWeight
          (float64_of_int 0 - Finite dx) + Finite p02 * CubicWeight (float64_of_int 1 - Finite
          dx) + Finite p03 * CubicWeight (float64_of_int 2 - Finite dx)) * CubicWeight
          (float64_of_int (- 1) - Finite dy) + (Finite 0 + Finite p10 * CubicWeight
          (float64_of_int (- 1) - Finite dx) + Finite p11 * CubicWeight (float64_of_int 0 -
          Finite dx) + Finite p12 * CubicWeight (float64_of_int 1 - Finite dx) + Finite p13 *
          CubicWeight (float64_of_int 2 - Finite dx)) * CubicWeight (float64_of_int 0 - Finite
          dy) + (Finite 0 + Finite p20 * CubicWeight (float64_of_int (- 1) - Finite dx) + Finite
          p21 * CubicWeight (float64_of_int 0 - Finite dx) + Finite p22 * CubicWeight
          (float64_of_int 1 - Finite dx) + Finite p23 * CubicWeight (float64_of_int 2 - Finite
          dx)) * CubicWeight (float64_of_int 1 - Finite dy) + (Finite 0 + Finite p30 *
          CubicWeight (float64_of_int (- 1) - Finite dx) + Finite p31 * CubicWeight
          (float64_of_int 0 - Finite dx) + Finite p32 * CubicWeight (float64_of_int 1 - Finite
          dx) + Finite p33 * CubicWeight (float64_of_int 2 - Finite dx)) * CubicWeight
          (float64_of_int 2 - Finite dy)) then Inl ErrInvalidChannel else Inr (Finite 0 + (Finite
          0 + Finite p00 * CubicWeight (float64_of_int (- 1) - Finite dx) + Finite p01 *
          CubicWeight (float64_of_int 0 - Finite dx) + Finite p02 * CubicWeight (float64_of_int 1
          - Finite dx) + Finite p03 * CubicWeight (float64_of_int 2 - Finite dx)) * CubicWeight
          (float64_of_int (- 1) - Finite dy) + (Finite 0 + Finite p10 * CubicWeight
          (float64_of_int (- 1) - Finite dx) + Finite p11 * CubicWeight (float64_of_int 0 -
          Finite dx) + Finite p12 * CubicWeight (float64_of_int 1 - Finite dx) + Finite p13 *
          CubicWeight (float64_of_int 2 - Finite dx)) * CubicWeight (float64_of_int 0 - Finite
          dy) + (Finite 0 + Finite p20 * CubicWeight (float64_of_int (- 1) - Finite dx) + Finite
          p21 * CubicWeight (float64_of_int 0 - Finite dx) + Finite p22 * CubicWeight
          (float64_of_int 1 - Finite dx) + Finite p23 * CubicWeight (float64_of_int 2 - Finite
          dx)) * CubicWeight (float64_of_int 1 - Finite dy) + (Finite 0 + Finite p30 *
          CubicWeight (float64_of_int (- 1) - Finite dx) + Finite p31 * CubicWeight
          (float64_of_int 0 - Finite dx) + Finite p32 * CubicWeight (float64_of_int 1 - Finite
          dx) + Finite p33 * CubicWeight (float64_of_int 2 - Finite dx)) * CubicWeight
          (float64_of_int 2 - Finite dy)))"
    using assms(1-4) by (simp add: InterpolateBicubic_def upt_KernelSize Let_def)
  then have "InterpolateBicubic [[Finite p00, Finite p01, Finite p02, Finite p03], [Finite p10,
      Finite p11, Finite p12, Finite p13], [Finite p20, Finite p21, Finite p22, Finite p23],
      [Finite p30, Finite p31, Finite p32, Finite p33]] (Finite dx) (Finite dy) = Inr (Finite v)"
    by (simp only: v(1) IsNaN.simps IsInf.simps simp_thms if_False)
  with e show ?thesis by blast
qed

section \<open>Validation and configuration facts\<close>

lemma ValidateDimensions_None:
  "ValidateDimensions w h = None \<longleftrightarrow> 1 \<le> w \<and> w \<le> 65535 \<and> 1
      \<le> h \<and> h \<le> 65535"
proof (cases "1 \<le> w \<and> w \<le> 65535 \<and> 1 \<le> h \<and> h \<le> 65535")
  case True
  then have "w * h \<le> 65535 * 65535" by (intro mult_mono) auto
  with True show ?thesis
    by (simp add: ValidateDimensions_def MinImageDimension_def MaxImageDimension_def)
next
  case False
  then show ?thesis
    by (auto simp: ValidateDimensions_def MinImageDimension_def MaxImageDimension_def)
qed

lemma ValidateDimensions_Some:
  "ValidateDimensions w h = Some e \<Longrightarrow> root e = ErrInvalidDimension"
  by (auto simp: ValidateDimensions_def split: if_splits)

lemma ratio_above:
  assumes "1 \<le> a" and "1 \<le> b" and "b \<le> 65535"
  shows "16 < round64 (real_of_int a / real_of_int b) \<longleftrightarrow> 16 < real_of_int a /
      real_of_int b"
proof
  assume "16 < round64 (real_of_int a / real_of_int b)"
  show "16 < real_of_int a / real_of_int b"
  proof (rule ccontr)
    assume "\<not> 16 < real_of_int a / real_of_int b"
    then have "round64 (real_of_int a / real_of_int b) \<le> round64 16"
      by (intro round64_mono) simp
    moreover have "round64 16 = 16" using round64_int [of 16] by simp
    ultimately show False using \<open>16 < round64 (real_of_int a / real_of_int b)\<close> by
        simp
  qed
next
  assume gt: "16 < real_of_int a / real_of_int b"
  have b: "0 < real_of_int b" "real_of_int b \<le> 65536" using assms(2,3) by simp_all
  from gt b(1) have "16 * real_of_int b < real_of_int a" by (simp add: pos_less_divide_eq)
  then have "real_of_int (16 * b) < real_of_int a" by simp
  then have "16 * b < a" by (simp only: of_int_less_iff)
  then have "16 * b + 1 \<le> a" by simp
  then have "real_of_int (16 * b + 1) \<le> real_of_int a" by (simp only: of_int_le_iff)
  then have "16 * real_of_int b + 1 \<le> real_of_int a" by simp
  moreover have "real_of_int b / 65536 \<le> 1" using b by simp
  ultimately have "(16 + 1 / 65536) * real_of_int b \<le> real_of_int a"
    by (simp add: algebra_simps)
  then have "16 + 1 / 65536 \<le> real_of_int a / real_of_int b"
    using b(1) by (simp add: pos_le_divide_eq)
  then have "round64 (16 + 1 / 65536) \<le> round64 (real_of_int a / real_of_int b)"
    by (rule round64_mono)
  moreover have "round64 (of_int 1048577 * pow2 (- 16)) = of_int 1048577 * pow2 (- 16)"
    by (rule round64_exact) simp_all
  then have "round64 (16 + 1 / 65536) = 16 + 1 / 65536" by simp
  ultimately show "16 < round64 (real_of_int a / real_of_int b)" by simp
qed

lemma ratio_below:
  assumes "1 \<le> a" and "1 \<le> b" and "b \<le> 65535"
  shows "round64 (real_of_int a / real_of_int b) < 1 / 16 \<longleftrightarrow> real_of_int a /
      real_of_int b < 1 / 16"
proof
  assume lt: "round64 (real_of_int a / real_of_int b) < 1 / 16"
  show "real_of_int a / real_of_int b < 1 / 16"
  proof (rule ccontr)
    assume "\<not> real_of_int a / real_of_int b < 1 / 16"
    then have "round64 (1 / 16) \<le> round64 (real_of_int a / real_of_int b)"
      by (intro round64_mono) simp
    moreover have "round64 (pow2 (- 4)) = pow2 (- 4)" by (rule round64_pow2) simp
    then have "round64 (1 / 16) = 1 / 16" by simp
    ultimately show False using lt by simp
  qed
next
  assume lt: "real_of_int a / real_of_int b < 1 / 16"
  have b: "0 < real_of_int b" "real_of_int b \<le> 65536" using assms(2,3) by simp_all
  from lt b(1) have "16 * real_of_int a < real_of_int b" by (simp add: pos_divide_less_eq)
  then have "real_of_int (16 * a) < real_of_int b" by simp
  then have "16 * a < b" by (simp only: of_int_less_iff)
  then have "16 * a + 1 \<le> b" by simp
  then have "real_of_int (16 * a + 1) \<le> real_of_int b" by (simp only: of_int_le_iff)
  then have "16 * real_of_int a + 1 \<le> real_of_int b" by simp
  moreover have "real_of_int b / 65536 \<le> 1" using b by simp
  ultimately have "real_of_int a \<le> (1 / 16 - 1 / 1048576) * real_of_int b"
    by (simp add: algebra_simps)
  then have "real_of_int a / real_of_int b \<le> 1 / 16 - 1 / 1048576"
    using b(1) by (simp add: pos_divide_le_eq)
  then have "round64 (real_of_int a / real_of_int b) \<le> round64 (1 / 16 - 1 / 1048576)"
    by (rule round64_mono)
  moreover have "round64 (of_int 65535 * pow2 (- 20)) = of_int 65535 * pow2 (- 20)"
    by (rule round64_exact) simp_all
  then have "round64 (1 / 16 - 1 / 1048576) = 1 / 16 - 1 / 1048576" by simp
  ultimately show "round64 (real_of_int a / real_of_int b) < 1 / 16" by simp
qed

lemma ratio_Finite:
  assumes "1 \<le> a" and "a \<le> 65535" and "1 \<le> b" and "b \<le> 65535"
  shows "float64_of_int a / float64_of_int b = Finite (round64 (real_of_int a / real_of_int b))"
proof -
  have "\<bar>a\<bar> \<le> 2 ^ 53" "\<bar>b\<bar> \<le> 2 ^ 53" using assms by simp_all
  then have f: "float64_of_int a = Finite (of_int a)" "float64_of_int b = Finite (of_int b)"
    by (simp_all add: float64_of_int_exact)
  have a: "0 \<le> real_of_int a" "real_of_int a \<le> 65535" using assms(1,2) by simp_all
  have b: "1 \<le> real_of_int b" using assms(3) by simp
  have "real_of_int a / real_of_int b \<le> real_of_int a / 1"
    using a(1) b by (intro divide_left_mono) simp_all
  moreover have "0 \<le> real_of_int a / real_of_int b" using a(1) b by simp
  ultimately have "\<bar>real_of_int a / real_of_int b\<bar> \<le> 2 ^ 1000" using a(2) by simp
  then have "fl (real_of_int a / real_of_int b) = Finite (round64 (real_of_int a / real_of_int
      b))"
    by (rule fl_Finite)
  with b show ?thesis by (simp add: f)
qed

lemma ValidateResizeRatio_None:
  "ValidateResizeRatio ow oh nw nh = None \<longleftrightarrow>
     ValidateDimensions ow oh = None \<and> ValidateDimensions nw nh = None \<and>
     1 / 16 \<le> real_of_int nw / real_of_int ow \<and> real_of_int nw / real_of_int ow \<le> 16
         \<and>
     1 / 16 \<le> real_of_int nh / real_of_int oh \<and> real_of_int nh / real_of_int oh \<le> 16"
proof (cases "ValidateDimensions ow oh = None \<and> ValidateDimensions nw nh = None")
  case True
  then have d: "1 \<le> ow" "ow \<le> 65535" "1 \<le> oh" "oh \<le> 65535"
    "1 \<le> nw" "nw \<le> 65535" "1 \<le> nh" "nh \<le> 65535"
    by (simp_all add: ValidateDimensions_None)
  note rw = ratio_Finite [OF d(5,6,1,2)]
  note rh = ratio_Finite [OF d(7,8,3,4)]
  note aw = ratio_above [OF d(5,1,2)]
  note ah = ratio_above [OF d(7,3,4)]
  note bw = ratio_below [OF d(5,1,2), simplified]
  note bh = ratio_below [OF d(7,3,4), simplified]
  from True show ?thesis
    by (auto simp: ValidateResizeRatio_def Let_def rw rh aw ah bw bh not_less not_le)
next
  case False
  then show ?thesis
    by (auto simp: ValidateResizeRatio_def Let_def split: option.splits)
qed

lemma ValidateResizeRatio_Some:
  "ValidateResizeRatio ow oh nw nh = Some e \<Longrightarrow> root e = ErrInvalidDimension"
  by (auto simp: ValidateResizeRatio_def Let_def split: option.splits if_splits dest:
      ValidateDimensions_Some)

lemma ValidateResizeRatio_valid_request:
  "ValidateResizeRatio sw sh tw th = None \<longleftrightarrow> valid_request sw sh tw th"
  by (simp add: ValidateResizeRatio_None ValidateDimensions_None valid_request_def)

lemma sample_receiver:
  "sampleRGBA r src x y w h = sampleRGBA r' src x y w h"
  "sampleRGBA64 r src x y w h = sampleRGBA64 r' src x y w h"
  "sampleGray r src x y w h = sampleGray r' src x y w h"
  "sampleGray16 r src x y w h = sampleGray16 r' src x y w h"
  by (simp_all add: sampleRGBA_def sampleRGBA64_def sampleGray_def sampleGray16_def)

lemma resize_Quality:
  "resizeRGBA (r\<lparr>config := (config r)\<lparr>Quality := q\<rparr>\<rparr>) src w h =
      resizeRGBA r src w h"
  "resizeRGBA64 (r\<lparr>config := (config r)\<lparr>Quality := q\<rparr>\<rparr>) src w h =
      resizeRGBA64 r src w h"
  "resizeGray (r\<lparr>config := (config r)\<lparr>Quality := q\<rparr>\<rparr>) src w h =
      resizeGray r src w h"
  "resizeGray16 (r\<lparr>config := (config r)\<lparr>Quality := q\<rparr>\<rparr>) src w h =
      resizeGray16 r src w h"
  by (simp_all add: resizeRGBA_def resizeRGBA64_def resizeGray_def resizeGray16_def Let_def
      sample_receiver [of "r\<lparr>config := (config r)\<lparr>Quality := q\<rparr>\<rparr>" _ _
          _ _ _ r]
      split: option.splits)

lemma Resize_Quality: "Resize (r\<lparr>config := (config r)\<lparr>Quality := q\<rparr>\<rparr>)
    src = Resize r src"
  by (cases src) (simp_all add: Resize_def resize_Quality Let_def split: option.splits
      Model.splits)

section \<open>Sampling facts\<close>

lemma upto4:
  "[s..s + 4 - 1] = [s, s + 1, s + 2, s + 3]"
  "[s..3 + s] = [s, s + 1, s + 2, s + 3]"
  "[s..s + 3] = [s, s + 1, s + 2, s + 3]"
  by (simp_all add: upto_rec1)

lemma interp_const:
  assumes "0 \<le> dx" "dx \<le> 1" "0 \<le> dy" "dy \<le> 1"
  shows "interp [[c, c, c, c], [c, c, c, c], [c, c, c, c], [c, c, c, c]] dx dy = c"
proof -
  define a0 a1 a2 a3 where "a0 = cw (- 1 - dx)" and "a1 = cw (0 - dx)" and "a2 = cw (1 - dx)" and
      "a3 = cw (2 - dx)"
  define b0 b1 b2 b3 where "b0 = cw (- 1 - dy)" and "b1 = cw (0 - dy)" and "b2 = cw (1 - dy)" and
      "b3 = cw (2 - dy)"
  have sa: "a0 + a1 + a2 + a3 = 1" unfolding a0_def a1_def a2_def a3_def using assms by (intro
      cw_partition)
  have sb: "b0 + b1 + b2 + b3 = 1" unfolding b0_def b1_def b2_def b3_def using assms by (intro
      cw_partition)
  have "interp [[c, c, c, c], [c, c, c, c], [c, c, c, c], [c, c, c, c]] dx dy
      = (c * a0 + c * a1 + c * a2 + c * a3) * b0 + (c * a0 + c * a1 + c * a2 + c * a3) * b1
        + (c * a0 + c * a1 + c * a2 + c * a3) * b2 + (c * a0 + c * a1 + c * a2 + c * a3) * b3"
    by (simp add: interp_def a0_def a1_def a2_def a3_def b0_def b1_def b2_def b3_def)
  also have "\<dots> = c * (a0 + a1 + a2 + a3) * (b0 + b1 + b2 + b3)"
    by (simp add: algebra_simps)
  finally show ?thesis by (simp add: sa sb)
qed

lemma channel_interp:
  assumes chan: "\<And>c. chan c = Finite (g c)"
    and g: "\<And>c. 0 \<le> g c \<and> g c \<le> 4294967296"
    and d: "0 \<le> dx" "dx \<le> 1" "0 \<le> dy" "dy \<le> 1"
  shows "\<exists>v. InterpolateBicubic (window src chan sx (sx + 4) sy (sy + 4) w h)
                (Finite dx) (Finite dy) = Inr (Finite v) \<and>
             \<bar>v - interp (rwindow src g sx sy w h) dx dy\<bar> \<le> 1 / 16"
  unfolding window_def rwindow_def upto4 Let_def list.map chan
  by (rule InterpolateBicubic_apx) (simp_all add: d g)

lemma unat32_bound: "real (unat (w :: 32 word)) \<le> 4294967296"
proof -
  have "unat w < 2 ^ 32" using unsigned_less [of w, where 'a = nat] by simp
  then have "real (unat w) < real (2 ^ 32)" by (simp only: of_nat_less_iff)
  then show ?thesis by simp
qed

lemma unsigned32_bound:
  "(unsigned (w :: 32 word) :: real) \<le> 4294967296" "0 \<le> (unsigned (w :: 32 word) :: real)"
  using unat32_bound [of w] of_nat_0_le_iff [of "unat w", where 'a = real] by simp_all

lemma sampleRGBA_in_range:
  assumes "1 \<le> w" "w \<le> 65535" "1 \<le> h" "h \<le> 65535"
    and "0 \<le> cx" "cx < of_int w" "0 \<le> cy" "cy < of_int h"
  shows "\<exists>c. sampleRGBA r src (Finite cx) (Finite cy) w h = Inr c"
proof -
  define sx sy where "sx = \<lfloor>cx\<rfloor> - 1" and "sy = \<lfloor>cy\<rfloor> - 1"
  define dx dy where "dx = round64 (frac cx)" and "dy = round64 (frac cy)"
  have w: "w \<le> 2 ^ 53" and h: "h \<le> 2 ^ 53" using assms(2,4) by simp_all
  have cx: "cx < 2 ^ 53" and cy: "cy < 2 ^ 53" using assms(2,4,6,8) by simp_all
  note kx = CalculateKernelBounds_in_range [OF w assms(5,6), folded sx_def]
  note ky = CalculateKernelBounds_in_range [OF h assms(7,8), folded sy_def]
  note fx = frac_offset [OF assms(5) cx, folded dx_def]
  note fy = frac_offset [OF assms(7) cy, folded dy_def]
  note d = fx(2,3) fy(2,3)
  have "\<exists>v. InterpolateBicubic
      (window src (\<lambda>(r32, g32, b32, a32). float64_of_uint32 (drop_bit 8 r32))
         sx (sx + 4) sy (sy + 4) w h) (Finite dx) (Finite dy) = Inr (Finite v) \<and>
      \<bar>v - interp (rwindow src (\<lambda>(r32, g32, b32, a32). real (unat (drop_bit 8 r32)))
                   sx sy w h) dx dy\<bar> \<le> 1 / 16"
    by (rule channel_interp [OF _ _ d])
       (simp_all add: float64_of_uint32_def split_beta unsigned32_bound)
  then obtain v0 where v0: "InterpolateBicubic
      (window src (\<lambda>(r32, g32, b32, a32). float64_of_uint32 (drop_bit 8 r32))
         sx (sx + 4) sy (sy + 4) w h) (Finite dx) (Finite dy) = Inr (Finite v0)"
    "\<bar>v0 - interp (rwindow src (\<lambda>(r32, g32, b32, a32). real (unat (drop_bit 8 r32)))
                   sx sy w h) dx dy\<bar> \<le> 1 / 16"
    by blast
  have "\<exists>v. InterpolateBicubic
      (window src (\<lambda>(r32, g32, b32, a32). float64_of_uint32 (drop_bit 8 g32))
         sx (sx + 4) sy (sy + 4) w h) (Finite dx) (Finite dy) = Inr (Finite v) \<and>
      \<bar>v - interp (rwindow src (\<lambda>(r32, g32, b32, a32). real (unat (drop_bit 8 g32)))
                   sx sy w h) dx dy\<bar> \<le> 1 / 16"
    by (rule channel_interp [OF _ _ d])
       (simp_all add: float64_of_uint32_def split_beta unsigned32_bound)
  then obtain v1 where v1: "InterpolateBicubic
      (window src (\<lambda>(r32, g32, b32, a32). float64_of_uint32 (drop_bit 8 g32))
         sx (sx + 4) sy (sy + 4) w h) (Finite dx) (Finite dy) = Inr (Finite v1)"
    "\<bar>v1 - interp (rwindow src (\<lambda>(r32, g32, b32, a32). real (unat (drop_bit 8 g32)))
                   sx sy w h) dx dy\<bar> \<le> 1 / 16"
    by blast
  have "\<exists>v. InterpolateBicubic
      (window src (\<lambda>(r32, g32, b32, a32). float64_of_uint32 (drop_bit 8 b32))
         sx (sx + 4) sy (sy + 4) w h) (Finite dx) (Finite dy) = Inr (Finite v) \<and>
      \<bar>v - interp (rwindow src (\<lambda>(r32, g32, b32, a32). real (unat (drop_bit 8 b32)))
                   sx sy w h) dx dy\<bar> \<le> 1 / 16"
    by (rule channel_interp [OF _ _ d])
       (simp_all add: float64_of_uint32_def split_beta unsigned32_bound)
  then obtain v2 where v2: "InterpolateBicubic
      (window src (\<lambda>(r32, g32, b32, a32). float64_of_uint32 (drop_bit 8 b32))
         sx (sx + 4) sy (sy + 4) w h) (Finite dx) (Finite dy) = Inr (Finite v2)"
    "\<bar>v2 - interp (rwindow src (\<lambda>(r32, g32, b32, a32). real (unat (drop_bit 8 b32)))
                   sx sy w h) dx dy\<bar> \<le> 1 / 16"
    by blast
  have "\<exists>v. InterpolateBicubic
      (window src (\<lambda>(r32, g32, b32, a32). float64_of_uint32 (drop_bit 8 a32))
         sx (sx + 4) sy (sy + 4) w h) (Finite dx) (Finite dy) = Inr (Finite v) \<and>
      \<bar>v - interp (rwindow src (\<lambda>(r32, g32, b32, a32). real (unat (drop_bit 8 a32)))
                   sx sy w h) dx dy\<bar> \<le> 1 / 16"
    by (rule channel_interp [OF _ _ d])
       (simp_all add: float64_of_uint32_def split_beta unsigned32_bound)
  then obtain v3 where v3: "InterpolateBicubic
      (window src (\<lambda>(r32, g32, b32, a32). float64_of_uint32 (drop_bit 8 a32))
         sx (sx + 4) sy (sy + 4) w h) (Finite dx) (Finite dy) = Inr (Finite v3)"
    "\<bar>v3 - interp (rwindow src (\<lambda>(r32, g32, b32, a32). real (unat (drop_bit 8 a32)))
                   sx sy w h) dx dy\<bar> \<le> 1 / 16"
    by blast
  show ?thesis
    by (simp add: sampleRGBA_def kx ky fx(1) fy(1) v0(1) v1(1) v2(1) v3(1))
qed

lemma sampleRGBA64_in_range:
  assumes "1 \<le> w" "w \<le> 65535" "1 \<le> h" "h \<le> 65535"
    and "0 \<le> cx" "cx < of_int w" "0 \<le> cy" "cy < of_int h"
  shows "\<exists>c. sampleRGBA64 r src (Finite cx) (Finite cy) w h = Inr c"
proof -
  define sx sy where "sx = \<lfloor>cx\<rfloor> - 1" and "sy = \<lfloor>cy\<rfloor> - 1"
  define dx dy where "dx = round64 (frac cx)" and "dy = round64 (frac cy)"
  have w: "w \<le> 2 ^ 53" and h: "h \<le> 2 ^ 53" using assms(2,4) by simp_all
  have cx: "cx < 2 ^ 53" and cy: "cy < 2 ^ 53" using assms(2,4,6,8) by simp_all
  note kx = CalculateKernelBounds_in_range [OF w assms(5,6), folded sx_def]
  note ky = CalculateKernelBounds_in_range [OF h assms(7,8), folded sy_def]
  note fx = frac_offset [OF assms(5) cx, folded dx_def]
  note fy = frac_offset [OF assms(7) cy, folded dy_def]
  note d = fx(2,3) fy(2,3)
  have "\<exists>v. InterpolateBicubic
      (window src (\<lambda>(r32, g32, b32, a32). float64_of_uint32 (r32))
         sx (sx + 4) sy (sy + 4) w h) (Finite dx) (Finite dy) = Inr (Finite v) \<and>
      \<bar>v - interp (rwindow src (\<lambda>(r32, g32, b32, a32). real (unat (r32)))
                   sx sy w h) dx dy\<bar> \<le> 1 / 16"
    by (rule channel_interp [OF _ _ d])
       (simp_all add: float64_of_uint32_def split_beta unsigned32_bound)
  then obtain v0 where v0: "InterpolateBicubic
      (window src (\<lambda>(r32, g32, b32, a32). float64_of_uint32 (r32))
         sx (sx + 4) sy (sy + 4) w h) (Finite dx) (Finite dy) = Inr (Finite v0)"
    "\<bar>v0 - interp (rwindow src (\<lambda>(r32, g32, b32, a32). real (unat (r32)))
                   sx sy w h) dx dy\<bar> \<le> 1 / 16"
    by blast
  have "\<exists>v. InterpolateBicubic
      (window src (\<lambda>(r32, g32, b32, a32). float64_of_uint32 (g32))
         sx (sx + 4) sy (sy + 4) w h) (Finite dx) (Finite dy) = Inr (Finite v) \<and>
      \<bar>v - interp (rwindow src (\<lambda>(r32, g32, b32, a32). real (unat (g32)))
                   sx sy w h) dx dy\<bar> \<le> 1 / 16"
    by (rule channel_interp [OF _ _ d])
       (simp_all add: float64_of_uint32_def split_beta unsigned32_bound)
  then obtain v1 where v1: "InterpolateBicubic
      (window src (\<lambda>(r32, g32, b32, a32). float64_of_uint32 (g32))
         sx (sx + 4) sy (sy + 4) w h) (Finite dx) (Finite dy) = Inr (Finite v1)"
    "\<bar>v1 - interp (rwindow src (\<lambda>(r32, g32, b32, a32). real (unat (g32)))
                   sx sy w h) dx dy\<bar> \<le> 1 / 16"
    by blast
  have "\<exists>v. InterpolateBicubic
      (window src (\<lambda>(r32, g32, b32, a32). float64_of_uint32 (b32))
         sx (sx + 4) sy (sy + 4) w h) (Finite dx) (Finite dy) = Inr (Finite v) \<and>
      \<bar>v - interp (rwindow src (\<lambda>(r32, g32, b32, a32). real (unat (b32)))
                   sx sy w h) dx dy\<bar> \<le> 1 / 16"
    by (rule channel_interp [OF _ _ d])
       (simp_all add: float64_of_uint32_def split_beta unsigned32_bound)
  then obtain v2 where v2: "InterpolateBicubic
      (window src (\<lambda>(r32, g32, b32, a32). float64_of_uint32 (b32))
         sx (sx + 4) sy (sy + 4) w h) (Finite dx) (Finite dy) = Inr (Finite v2)"
    "\<bar>v2 - interp (rwindow src (\<lambda>(r32, g32, b32, a32). real (unat (b32)))
                   sx sy w h) dx dy\<bar> \<le> 1 / 16"
    by blast
  have "\<exists>v. InterpolateBicubic
      (window src (\<lambda>(r32, g32, b32, a32). float64_of_uint32 (a32))
         sx (sx + 4) sy (sy + 4) w h) (Finite dx) (Finite dy) = Inr (Finite v) \<and>
      \<bar>v - interp (rwindow src (\<lambda>(r32, g32, b32, a32). real (unat (a32)))
                   sx sy w h) dx dy\<bar> \<le> 1 / 16"
    by (rule channel_interp [OF _ _ d])
       (simp_all add: float64_of_uint32_def split_beta unsigned32_bound)
  then obtain v3 where v3: "InterpolateBicubic
      (window src (\<lambda>(r32, g32, b32, a32). float64_of_uint32 (a32))
         sx (sx + 4) sy (sy + 4) w h) (Finite dx) (Finite dy) = Inr (Finite v3)"
    "\<bar>v3 - interp (rwindow src (\<lambda>(r32, g32, b32, a32). real (unat (a32)))
                   sx sy w h) dx dy\<bar> \<le> 1 / 16"
    by blast
  show ?thesis
    by (simp add: sampleRGBA64_def kx ky fx(1) fy(1) v0(1) v1(1) v2(1) v3(1))
qed

lemma sampleGray_in_range:
  assumes "1 \<le> w" "w \<le> 65535" "1 \<le> h" "h \<le> 65535"
    and "0 \<le> cx" "cx < of_int w" "0 \<le> cy" "cy < of_int h"
  shows "\<exists>v. sampleGray r src (Finite cx) (Finite cy) w h = Inr (ClampUint8 (Finite v))
      \<and>
             \<bar>v - interp (rwindow src (\<lambda>(gray, g32, b32, a32). real (unat (drop_bit
                 8 gray)))
                            (\<lfloor>cx\<rfloor> - 1) (\<lfloor>cy\<rfloor> - 1) w h)
                     (round64 (frac cx)) (round64 (frac cy))\<bar> \<le> 1 / 16"
proof -
  define sx sy where "sx = \<lfloor>cx\<rfloor> - 1" and "sy = \<lfloor>cy\<rfloor> - 1"
  define dx dy where "dx = round64 (frac cx)" and "dy = round64 (frac cy)"
  have w: "w \<le> 2 ^ 53" and h: "h \<le> 2 ^ 53" using assms(2,4) by simp_all
  have cx: "cx < 2 ^ 53" and cy: "cy < 2 ^ 53" using assms(2,4,6,8) by simp_all
  note kx = CalculateKernelBounds_in_range [OF w assms(5,6), folded sx_def]
  note ky = CalculateKernelBounds_in_range [OF h assms(7,8), folded sy_def]
  note fx = frac_offset [OF assms(5) cx, folded dx_def]
  note fy = frac_offset [OF assms(7) cy, folded dy_def]
  note d = fx(2,3) fy(2,3)
  have "\<exists>v. InterpolateBicubic
      (window src (\<lambda>(gray, g32, b32, a32). float64_of_uint32 (drop_bit 8 gray))
         sx (sx + 4) sy (sy + 4) w h) (Finite dx) (Finite dy) = Inr (Finite v) \<and>
      \<bar>v - interp (rwindow src (\<lambda>(gray, g32, b32, a32). real (unat (drop_bit 8
          gray)))
                   sx sy w h) dx dy\<bar> \<le> 1 / 16"
    by (rule channel_interp [OF _ _ d])
       (simp_all add: float64_of_uint32_def split_beta unsigned32_bound)
  then obtain v where v: "InterpolateBicubic
      (window src (\<lambda>(gray, g32, b32, a32). float64_of_uint32 (drop_bit 8 gray))
         sx (sx + 4) sy (sy + 4) w h) (Finite dx) (Finite dy) = Inr (Finite v)"
    "\<bar>v - interp (rwindow src (\<lambda>(gray, g32, b32, a32). real (unat (drop_bit 8 gray)))
                   sx sy w h) dx dy\<bar> \<le> 1 / 16"
    by blast
  have "sampleGray r src (Finite cx) (Finite cy) w h = Inr (ClampUint8 (Finite v))"
    by (simp add: sampleGray_def kx ky fx(1) fy(1) v(1))
  with v(2) show ?thesis unfolding sx_def dx_def dy_def sy_def by blast
qed

lemma sampleGray16_in_range:
  assumes "1 \<le> w" "w \<le> 65535" "1 \<le> h" "h \<le> 65535"
    and "0 \<le> cx" "cx < of_int w" "0 \<le> cy" "cy < of_int h"
  shows "\<exists>c. sampleGray16 r src (Finite cx) (Finite cy) w h = Inr c"
proof -
  define sx sy where "sx = \<lfloor>cx\<rfloor> - 1" and "sy = \<lfloor>cy\<rfloor> - 1"
  define dx dy where "dx = round64 (frac cx)" and "dy = round64 (frac cy)"
  have w: "w \<le> 2 ^ 53" and h: "h \<le> 2 ^ 53" using assms(2,4) by simp_all
  have cx: "cx < 2 ^ 53" and cy: "cy < 2 ^ 53" using assms(2,4,6,8) by simp_all
  note kx = CalculateKernelBounds_in_range [OF w assms(5,6), folded sx_def]
  note ky = CalculateKernelBounds_in_range [OF h assms(7,8), folded sy_def]
  note fx = frac_offset [OF assms(5) cx, folded dx_def]
  note fy = frac_offset [OF assms(7) cy, folded dy_def]
  note d = fx(2,3) fy(2,3)
  have "\<exists>v. InterpolateBicubic
      (window src (\<lambda>(gray, g32, b32, a32). float64_of_uint32 (gray))
         sx (sx + 4) sy (sy + 4) w h) (Finite dx) (Finite dy) = Inr (Finite v) \<and>
      \<bar>v - interp (rwindow src (\<lambda>(gray, g32, b32, a32). real (unat (gray)))
                   sx sy w h) dx dy\<bar> \<le> 1 / 16"
    by (rule channel_interp [OF _ _ d])
       (simp_all add: float64_of_uint32_def split_beta unsigned32_bound)
  then obtain v where v: "InterpolateBicubic
      (window src (\<lambda>(gray, g32, b32, a32). float64_of_uint32 (gray))
         sx (sx + 4) sy (sy + 4) w h) (Finite dx) (Finite dy) = Inr (Finite v)"
    "\<bar>v - interp (rwindow src (\<lambda>(gray, g32, b32, a32). real (unat (gray)))
                   sx sy w h) dx dy\<bar> \<le> 1 / 16"
    by blast
  show ?thesis
    by (simp add: sampleGray16_def kx ky fx(1) fy(1) v(1))
qed

section \<open>Scan facts\<close>

lemma src_center_range:
  assumes "1 \<le> src" and "src \<le> 65535" and "1 \<le> tgt" and "tgt \<le> 65535"
    and "0 \<le> i" and "i < tgt"
  shows "\<exists>c. src_center i src tgt = Finite c \<and> 0 \<le> c \<and> c < of_int src \<and>
             round64 (frac c) = frac c"
proof -
  define S T I where "S = real_of_int src" and "T = real_of_int tgt" and "I = real_of_int i"
  have S: "1 \<le> S" "S \<le> 65535" using assms(1,2) by (simp_all add: S_def)
  have T: "1 \<le> T" "T \<le> 65535" using assms(3,4) by (simp_all add: T_def)
  have "i + 1 \<le> tgt" using assms(6) by simp
  then have "real_of_int (i + 1) \<le> real_of_int tgt" by (simp only: of_int_le_iff)
  then have I: "0 \<le> I" "I + 1 \<le> T" using assms(5) by (simp_all add: I_def T_def)
  have "\<bar>i\<bar> \<le> 2 ^ 53" "\<bar>src\<bar> \<le> 2 ^ 53" "\<bar>tgt\<bar> \<le> 2 ^ 53"
      using assms by simp_all
  then have f: "float64_of_int i = Finite I" "float64_of_int src = Finite S"
    "float64_of_int tgt = Finite T"
    by (simp_all add: float64_of_int_exact I_def S_def T_def)
  have "\<bar>2 * i + 1\<bar> < 2 ^ 53" using assms(4-6) by simp
  from round64_half [OF this] have "round64 (I + 1 / 2) = I + 1 / 2"
    by (simp add: I_def add_divide_distrib)
  moreover have "\<bar>I + 1 / 2\<bar> \<le> 2 ^ 1000" using I T by simp
  ultimately have half: "fl (I + 1 / 2) = Finite (I + 1 / 2)"
    by (simp add: fl_Finite)
  have q0: "1 / 65535 \<le> S / T" using S T by (intro frac_le) simp_all
  have "S / T \<le> S / 1" using S T by (intro divide_left_mono) simp_all
  then have q1: "S / T \<le> 65535" using S by simp
  have ratio: "Finite S / Finite T = fl (S / T)" using T by simp
  have q: "apx 65535 (65537 / 2 ^ 53) (fl (S / T)) (S / T)"
    using q0 q1 by (intro apx_fl [where d = 0]) simp_all
  have a: "apx 65535 0 (Finite (I + 1 / 2)) (I + 1 / 2)"
    using I T by (intro apx_exact) simp
  define t where "t = (I + 1 / 2) * (S / T)"
  have "apx 4294836225 (8589803522 / 2 ^ 53) (Finite (I + 1 / 2) * fl (S / T)) ((I + 1 / 2) * (S
      / T))"
    by (rule apx_mul [OF a q]) simp_all
  then obtain c where c: "Finite (I + 1 / 2) * fl (S / T) = Finite c"
    "\<bar>c - t\<bar> \<le> 8589803522 / 2 ^ 53"
    by (auto simp: apx_def t_def)
  from q obtain rr where rr: "fl (S / T) = Finite rr" by (auto simp: apx_def)
  have small: "(8589803522 / 2 ^ 53 :: real) < 1 / 131070" by simp
  have "1 / 2 * (1 / 65535) \<le> (I + 1 / 2) * (S / T)"
    using I q0 by (intro mult_mono) simp_all
  then have lo: "1 / 131070 \<le> t" unfolding t_def by linarith
  have "1 / 2 * (1 / 65535) \<le> (T - I - 1 / 2) * (S / T)"
    using I q0 by (intro mult_mono) simp_all
  moreover have "(T - I - 1 / 2) * (S / T) = S - t"
    unfolding t_def using T by (simp add: field_simps)
  ultimately have hi: "t \<le> S - 1 / 131070" by linarith
  from c(2) small lo hi have c0: "0 \<le> c" "c < S" by linarith+
  from c(1) have "Finite (I + 1 / 2) * Finite rr = Finite c" by (simp only: rr)
  then have "round64 (frac c) = frac c" using c0(1) by (rule times_repr)
  moreover have "src_center i src tgt = Finite c"
    using T by (simp add: src_center_def f half c(1))
  ultimately show ?thesis using c0 by (simp add: S_def)
qed

lemma fold_Inr:
  assumes "\<And>x d. x \<in> set xs \<Longrightarrow> step x (Inr d) = Inr (g x d)"
  shows "fold step xs (Inr d) = Inr (fold g xs d)"
  using assms by (induction xs arbitrary: d) simp_all

lemma scan_success:
  assumes ok: "\<And>x y. 0 \<le> x \<Longrightarrow> x < tw \<Longrightarrow> 0 \<le> y
      \<Longrightarrow> y < th \<Longrightarrow>
               sample (src_center x sw tw) (src_center y sh th) = Inr (px x y)"
  shows "scan sample sw sh tw th dst0 = Inr (paint px tw th dst0)"
  unfolding scan_def paint_def Let_def src_center_def [symmetric]
proof (rule fold_Inr)
  fix y d
  assume y: "y \<in> set [0..th - 1]"
  show "(case Inr d of Inl err \<Rightarrow> Inl err
         | Inr dst \<Rightarrow>
           fold (\<lambda>x acc. case acc of Inl err \<Rightarrow> Inl err
                  | Inr dst \<Rightarrow>
                     (case sample (src_center x sw tw) (src_center y sh th) of
                        Inl err \<Rightarrow> Inl (Wrap ''sampling failed'' err)
                      | Inr c \<Rightarrow> Inr (SetPixel x y c dst)))
             [0..tw - 1] (Inr dst))
        = Inr (fold (\<lambda>x dst. SetPixel x y (px x y) dst) [0..tw - 1] d)"
    unfolding sum.case
  proof (rule fold_Inr)
    fix x d'
    assume x: "x \<in> set [0..tw - 1]"
    from x y have "0 \<le> x" "x < tw" "0 \<le> y" "y < th" by simp_all
    then show "(case Inr d' of Inl err \<Rightarrow> Inl err
         | Inr dst \<Rightarrow>
                     (case sample (src_center x sw tw) (src_center y sh th) of
                        Inl err \<Rightarrow> Inl (Wrap ''sampling failed'' err)
                      | Inr c \<Rightarrow> Inr (SetPixel x y c dst))) = Inr (SetPixel x y (px x
                          y) d')"
      by (simp add: ok)
  qed
qed

lemma scan_ok:
  assumes "\<And>x y. 0 \<le> x \<Longrightarrow> x < tw \<Longrightarrow> 0 \<le> y
      \<Longrightarrow> y < th \<Longrightarrow>
               \<exists>c. sample (src_center x sw tw) (src_center y sh th) = Inr c"
  shows "scan sample sw sh tw th dst0
           = Inr (paint (\<lambda>x y. projr (sample (src_center x sw tw) (src_center y sh th)))
                    tw th dst0)"
proof (rule scan_success)
  fix x y assume "0 \<le> x" "x < tw" "0 \<le> y" "y < th"
  from assms [OF this] obtain c where "sample (src_center x sw tw) (src_center y sh th) = Inr c"
    by blast
  then show "sample (src_center x sw tw) (src_center y sh th)
               = Inr (projr (sample (src_center x sw tw) (src_center y sh th)))"
    by simp
qed

lemma SetPixel_fields [simp]:
  "Rect (SetPixel x y c p) = Rect p" "Stride (SetPixel x y c p) = Stride p"
  "length (Pix (SetPixel x y c p)) = length (Pix p)"
  by (simp_all add: SetPixel_def)

lemma SetPixel_well_formed: "well_formed p w h \<Longrightarrow> well_formed (SetPixel x y c p) w
    h"
  by (simp add: well_formed_def)

lemma row_well_formed:
  "well_formed d w h \<Longrightarrow> well_formed (fold (\<lambda>x dst. SetPixel x y (px x)
      dst) xs d) w h"
  by (induction xs arbitrary: d) (simp_all add: SetPixel_well_formed)

lemma paint_well_formed:
  "well_formed d w h \<Longrightarrow> well_formed (paint px tw th d) w h"
proof -
  have "well_formed d w h \<Longrightarrow>
    well_formed (fold (\<lambda>y dst. fold (\<lambda>x dst. SetPixel x y (px x y) dst) xs dst)
        ys d) w h" for xs ys
    by (induction ys arbitrary: d) (simp_all add: row_well_formed)
  then show "well_formed d w h \<Longrightarrow> well_formed (paint px tw th d) w h"
    by (simp add: paint_def)
qed

lemma offset_bound:
  fixes x y w h :: int
  assumes "0 \<le> x" "x < w" "0 \<le> y" "y < h"
  shows "0 \<le> y * w + x" and "y * w + x < w * h"
proof -
  have w: "0 \<le> w" using assms by linarith
  then have "0 \<le> y * w" using assms by simp
  then show "0 \<le> y * w + x" using assms by linarith
  have "y * w + x < y * w + w" using assms by simp
  also have "\<dots> = (y + 1) * w" by (simp add: algebra_simps)
  also have "\<dots> \<le> h * w" using assms w by (intro mult_right_mono) auto
  finally show "y * w + x < w * h" by (simp add: mult.commute)
qed

lemma offset_inj:
  fixes x y w x' y' :: int
  assumes "0 \<le> x" "x < w" "0 \<le> x'" "x' < w" "y * w + x = y' * w + x'"
  shows "x = x' \<and> y = (y'::int)"
proof -
  have w: "w \<noteq> 0" using assms by linarith
  have "(y * w + x) mod w = x mod w" "(y' * w + x') mod w = x' mod w" by simp_all
  moreover have "x mod w = x" "x' mod w = x'" using assms by simp_all
  ultimately have x: "x = x'" using assms(5) by simp
  have "(y * w + x) div w = y + x div w" "(y' * w + x') div w = y' + x' div w"
    using w by simp_all
  moreover have "x div w = 0" "x' div w = 0" using assms by simp_all
  ultimately have "y = y'" using assms(5) by simp
  with x show ?thesis by simp
qed

lemma SetPixel_nth:
  assumes wf: "well_formed p w h"
    and "0 \<le> x" "x < w" "0 \<le> y" "y < h" "0 \<le> x0" "x0 < w" "0 \<le> y0" "y0 < h"
  shows "Pix (SetPixel x y c p) ! nat (y0 * w + x0)
           = (if x0 = x \<and> y0 = y then c else Pix p ! nat (y0 * w + x0))"
proof -
  have inr: "In x y (Rect p)" using wf assms(2-5) by (simp add: well_formed_def In_def)
  have off: "PixOffset p x y = y * w + x" using wf by (simp add: well_formed_def PixOffset_def)
  note b = offset_bound [OF assms(2-5)] 
  note b0 = offset_bound [OF assms(6-9)]
  have len: "nat (y * w + x) < length (Pix p)"
    using wf b by (simp add: well_formed_def)
  have "nat (y0 * w + x0) = nat (y * w + x) \<longleftrightarrow> y0 * w + x0 = y * w + x"
    using b b0 by (simp add: eq_nat_nat_iff)
  also have "\<dots> \<longleftrightarrow> x0 = x \<and> y0 = y"
    using offset_inj [OF assms(6,7,2,3)] by auto
  finally have "nat (y0 * w + x0) = nat (y * w + x) \<longleftrightarrow> x0 = x \<and> y0 = y" .
  then show ?thesis
    using inr off len by (auto simp: SetPixel_def nth_list_update)
qed

lemma row_nth:
  assumes "well_formed d w h" and "set xs \<subseteq> {0..<w}" and "0 \<le> y" "y < h"
    and "0 \<le> x0" "x0 < w" "0 \<le> y0" "y0 < h"
  shows "Pix (fold (\<lambda>x dst. SetPixel x y (px x) dst) xs d) ! nat (y0 * w + x0)
           = (if y0 = y \<and> x0 \<in> set xs then px x0 else Pix d ! nat (y0 * w + x0))"
  using assms(1,2)
proof (induction xs arbitrary: d)
  case Nil
  then show ?case by simp
next
  case (Cons x xs)
  from Cons.prems have x: "0 \<le> x" "x < w" and xs: "set xs \<subseteq> {0..<w}" by auto
  have wf': "well_formed (SetPixel x y (px x) d) w h"
    using Cons.prems(1) by (rule SetPixel_well_formed)
  show ?case
    using Cons.IH [OF wf' xs]
      SetPixel_nth [OF Cons.prems(1) x assms(3,4) assms(5-8), of "px x"]
    by auto
qed

lemma paint_nth:
  assumes wf: "well_formed d w h" and "0 \<le> x0" "x0 < w" "0 \<le> y0" "y0 < h"
  shows "Pix (paint px w h d) ! nat (y0 * w + x0) = px x0 y0"
proof -
  have rows: "Pix (fold (\<lambda>y dst. fold (\<lambda>x dst. SetPixel x y (px x y) dst) [0..w -
      1] dst) ys d)
                ! nat (y0 * w + x0)
              = (if y0 \<in> set ys then px x0 y0 else Pix d ! nat (y0 * w + x0))"
    if "well_formed d w h" and "set ys \<subseteq> {0..<h}" for ys d
    using that
  proof (induction ys arbitrary: d)
    case Nil
    then show ?case by simp
  next
    case (Cons y ys)
    let ?d = "fold (\<lambda>x dst. SetPixel x y (px x y) dst) [0..w - 1] d"
    from Cons.prems have y: "0 \<le> y" "y < h" and ys: "set ys \<subseteq> {0..<h}" by auto
    have wf': "well_formed ?d w h"
      using Cons.prems(1) by (rule row_well_formed)
    have xs: "set [0..w - 1] \<subseteq> {0..<w}" by auto
    have x0: "x0 \<in> set [0..w - 1]" using assms(2,3) by simp
    have "Pix ?d ! nat (y0 * w + x0) = (if y0 = y then px x0 y else Pix d ! nat (y0 * w + x0))"
      using row_nth [OF Cons.prems(1) xs y assms(2-5), of "\<lambda>x. px x y"] x0 by simp
    with Cons.IH [OF wf' ys] show ?case by auto
  qed
  have "set [0..h - 1] \<subseteq> {0..<h}" by auto
  moreover have "y0 \<in> set [0..h - 1]" using assms(4,5) by simp
  ultimately show ?thesis
    using rows [OF wf] by (simp add: paint_def)
qed

lemma NewBuffer_well_formed:
  assumes "0 \<le> w" and "0 \<le> h"
  shows "well_formed (NewBuffer z (image_Rect 0 0 w h)) w h"
  using assms by (simp add: well_formed_def NewBuffer_def image_Rect_def Dx_def Dy_def)

lemma paint_const:
  assumes "1 \<le> w" and "1 \<le> h"
  shows "paint (\<lambda>x y. v) w h (NewBuffer z (image_Rect 0 0 w h))
           = \<lparr>Pix = replicate (nat (w * h)) v, Stride = w,
               Rect = \<lparr>MinX = 0, MinY = 0, MaxX = w, MaxY = h\<rparr>\<rparr>"
proof -
  let ?p = "paint (\<lambda>x y. v) w h (NewBuffer z (image_Rect 0 0 w h))"
  have wf0: "well_formed (NewBuffer z (image_Rect 0 0 w h)) w h"
    using assms by (intro NewBuffer_well_formed) auto
  then have wf: "well_formed ?p w h" by (rule paint_well_formed)
  have "Pix ?p = replicate (nat (w * h)) v"
  proof (rule nth_equalityI)
    show "length (Pix ?p) = length (replicate (nat (w * h)) v)"
      using wf by (simp add: well_formed_def)
  next
    fix i assume "i < length (Pix ?p)"
    then have i: "int i < w * h" using wf by (simp add: well_formed_def)
    define x0 y0 where "x0 = int i mod w" and "y0 = int i div w"
    have w: "0 < w" using assms by simp
    have x0: "0 \<le> x0" "x0 < w" using w by (simp_all add: x0_def)
    have y0: "0 \<le> y0" using w by (simp add: y0_def pos_imp_zdiv_nonneg_iff)
    have idx: "y0 * w + x0 = int i" by (simp add: x0_def y0_def)
    have "y0 < h"
    proof (rule ccontr)
      assume "\<not> y0 < h"
      then have "h * w \<le> y0 * w" using w by (intro mult_right_mono) auto
      with idx x0(1) i show False by (simp add: mult.commute)
    qed
    have "Pix ?p ! nat (y0 * w + x0) = v"
      using paint_nth [OF wf0 x0 y0 \<open>y0 < h\<close>] .
    then show "Pix ?p ! i = replicate (nat (w * h)) v ! i"
      using i by (simp add: idx)
  qed
  with wf show ?thesis by (simp add: well_formed_def)
qed

section \<open>Resize facts\<close>

lemma resizeRGBA_valid:
  assumes "1 \<le> sw" "sw \<le> 65535" "1 \<le> sh" "sh \<le> 65535"
    and "1 \<le> tw" "tw \<le> 65535" "1 \<le> th" "th \<le> 65535"
    and "TargetWidth (config r) = tw" "TargetHeight (config r) = th"
  shows "resizeRGBA r src sw sh
         = Inr (paint (\<lambda>x y. projr (sampleRGBA r src (src_center x sw tw) (src_center y
             sh th) sw sh))
                  tw th (NewBuffer (0, 0, 0, 0) (image_Rect 0 0 tw th)))"
proof -
  have v: "ValidateDimensions tw th = None"
    using assms(5-8) by (simp add: ValidateDimensions_None)
  have "scan (\<lambda>srcX srcY. sampleRGBA r src srcX srcY sw sh) sw sh tw th
          (NewBuffer (0, 0, 0, 0) (image_Rect 0 0 tw th))
        = Inr (paint (\<lambda>x y. projr (sampleRGBA r src (src_center x sw tw) (src_center y sh
            th) sw sh))
                  tw th (NewBuffer (0, 0, 0, 0) (image_Rect 0 0 tw th)))"
  proof (rule scan_ok)
    fix x y assume xy: "0 \<le> x" "x < tw" "0 \<le> y" "y < th"
    from src_center_range [OF assms(1,2,5,6) xy(1,2)] obtain cx where
      cx: "src_center x sw tw = Finite cx" "0 \<le> cx" "cx < of_int sw" by blast
    from src_center_range [OF assms(3,4,7,8) xy(3,4)] obtain cy where
      cy: "src_center y sh th = Finite cy" "0 \<le> cy" "cy < of_int sh" by blast
    from sampleRGBA_in_range [OF assms(1-4) cx(2,3) cy(2,3), of r src]
    show "\<exists>c. sampleRGBA r src (src_center x sw tw) (src_center y sh th) sw sh = Inr c"
      unfolding cx(1) cy(1) by blast
  qed
  then show ?thesis
    by (simp add: resizeRGBA_def assms(9,10) v)
qed

lemma resizeRGBA64_valid:
  assumes "1 \<le> sw" "sw \<le> 65535" "1 \<le> sh" "sh \<le> 65535"
    and "1 \<le> tw" "tw \<le> 65535" "1 \<le> th" "th \<le> 65535"
    and "TargetWidth (config r) = tw" "TargetHeight (config r) = th"
  shows "resizeRGBA64 r src sw sh
         = Inr (paint (\<lambda>x y. projr (sampleRGBA64 r src (src_center x sw tw) (src_center y
             sh th) sw sh))
                  tw th (NewBuffer (0, 0, 0, 0) (image_Rect 0 0 tw th)))"
proof -
  have v: "ValidateDimensions tw th = None"
    using assms(5-8) by (simp add: ValidateDimensions_None)
  have "scan (\<lambda>srcX srcY. sampleRGBA64 r src srcX srcY sw sh) sw sh tw th
          (NewBuffer (0, 0, 0, 0) (image_Rect 0 0 tw th))
        = Inr (paint (\<lambda>x y. projr (sampleRGBA64 r src (src_center x sw tw) (src_center y
            sh th) sw sh))
                  tw th (NewBuffer (0, 0, 0, 0) (image_Rect 0 0 tw th)))"
  proof (rule scan_ok)
    fix x y assume xy: "0 \<le> x" "x < tw" "0 \<le> y" "y < th"
    from src_center_range [OF assms(1,2,5,6) xy(1,2)] obtain cx where
      cx: "src_center x sw tw = Finite cx" "0 \<le> cx" "cx < of_int sw" by blast
    from src_center_range [OF assms(3,4,7,8) xy(3,4)] obtain cy where
      cy: "src_center y sh th = Finite cy" "0 \<le> cy" "cy < of_int sh" by blast
    from sampleRGBA64_in_range [OF assms(1-4) cx(2,3) cy(2,3), of r src]
    show "\<exists>c. sampleRGBA64 r src (src_center x sw tw) (src_center y sh th) sw sh = Inr c"
      unfolding cx(1) cy(1) by blast
  qed
  then show ?thesis
    by (simp add: resizeRGBA64_def assms(9,10) v)
qed

lemma resizeGray_valid:
  assumes "1 \<le> sw" "sw \<le> 65535" "1 \<le> sh" "sh \<le> 65535"
    and "1 \<le> tw" "tw \<le> 65535" "1 \<le> th" "th \<le> 65535"
    and "TargetWidth (config r) = tw" "TargetHeight (config r) = th"
  shows "resizeGray r src sw sh
         = Inr (paint (\<lambda>x y. projr (sampleGray r src (src_center x sw tw) (src_center y
             sh th) sw sh))
                  tw th (NewBuffer 0 (image_Rect 0 0 tw th)))"
proof -
  have v: "ValidateDimensions tw th = None"
    using assms(5-8) by (simp add: ValidateDimensions_None)
  have "scan (\<lambda>srcX srcY. sampleGray r src srcX srcY sw sh) sw sh tw th
          (NewBuffer 0 (image_Rect 0 0 tw th))
        = Inr (paint (\<lambda>x y. projr (sampleGray r src (src_center x sw tw) (src_center y sh
            th) sw sh))
                  tw th (NewBuffer 0 (image_Rect 0 0 tw th)))"
  proof (rule scan_ok)
    fix x y assume xy: "0 \<le> x" "x < tw" "0 \<le> y" "y < th"
    from src_center_range [OF assms(1,2,5,6) xy(1,2)] obtain cx where
      cx: "src_center x sw tw = Finite cx" "0 \<le> cx" "cx < of_int sw" by blast
    from src_center_range [OF assms(3,4,7,8) xy(3,4)] obtain cy where
      cy: "src_center y sh th = Finite cy" "0 \<le> cy" "cy < of_int sh" by blast
    from sampleGray_in_range [OF assms(1-4) cx(2,3) cy(2,3), of r src]
    show "\<exists>c. sampleGray r src (src_center x sw tw) (src_center y sh th) sw sh = Inr c"
      unfolding cx(1) cy(1) by blast
  qed
  then show ?thesis
    by (simp add: resizeGray_def assms(9,10) v)
qed

lemma resizeGray16_valid:
  assumes "1 \<le> sw" "sw \<le> 65535" "1 \<le> sh" "sh \<le> 65535"
    and "1 \<le> tw" "tw \<le> 65535" "1 \<le> th" "th \<le> 65535"
    and "TargetWidth (config r) = tw" "TargetHeight (config r) = th"
  shows "resizeGray16 r src sw sh
         = Inr (paint (\<lambda>x y. projr (sampleGray16 r src (src_center x sw tw) (src_center y
             sh th) sw sh))
                  tw th (NewBuffer 0 (image_Rect 0 0 tw th)))"
proof -
  have v: "ValidateDimensions tw th = None"
    using assms(5-8) by (simp add: ValidateDimensions_None)
  have "scan (\<lambda>srcX srcY. sampleGray16 r src srcX srcY sw sh) sw sh tw th
          (NewBuffer 0 (image_Rect 0 0 tw th))
        = Inr (paint (\<lambda>x y. projr (sampleGray16 r src (src_center x sw tw) (src_center y
            sh th) sw sh))
                  tw th (NewBuffer 0 (image_Rect 0 0 tw th)))"
  proof (rule scan_ok)
    fix x y assume xy: "0 \<le> x" "x < tw" "0 \<le> y" "y < th"
    from src_center_range [OF assms(1,2,5,6) xy(1,2)] obtain cx where
      cx: "src_center x sw tw = Finite cx" "0 \<le> cx" "cx < of_int sw" by blast
    from src_center_range [OF assms(3,4,7,8) xy(3,4)] obtain cy where
      cy: "src_center y sh th = Finite cy" "0 \<le> cy" "cy < of_int sh" by blast
    from sampleGray16_in_range [OF assms(1-4) cx(2,3) cy(2,3), of r src]
    show "\<exists>c. sampleGray16 r src (src_center x sw tw) (src_center y sh th) sw sh = Inr c"
      unfolding cx(1) cy(1) by blast
  qed
  then show ?thesis
    by (simp add: resizeGray16_def assms(9,10) v)
qed

lemma paint_Rect:
  assumes "0 \<le> w" and "0 \<le> h"
  shows "Rect (paint px w h (NewBuffer z (image_Rect 0 0 w h)))
           = \<lparr>MinX = 0, MinY = 0, MaxX = w, MaxY = h\<rparr>"
  using paint_well_formed [OF NewBuffer_well_formed [OF assms], of px w h z]
  by (simp add: well_formed_def)

lemma Resize_valid:
  assumes "valid_request (Dx (Bounds src)) (Dy (Bounds src))
             (TargetWidth (config r)) (TargetHeight (config r))"
  shows "\<exists>img. Resize r (Some src) = Inr img \<and>
           OutBounds img = \<lparr>MinX = 0, MinY = 0, MaxX = TargetWidth (config r),
                               MaxY = TargetHeight (config r)\<rparr>"
proof -
  define sw sh tw th where "sw = Dx (Bounds src)" and "sh = Dy (Bounds src)"
    and "tw = TargetWidth (config r)" and "th = TargetHeight (config r)"
  from assms have vr: "valid_request sw sh tw th" by (simp add: sw_def sh_def tw_def th_def)
  then have d: "1 \<le> sw" "sw \<le> 65535" "1 \<le> sh" "sh \<le> 65535"
    "1 \<le> tw" "tw \<le> 65535" "1 \<le> th" "th \<le> 65535"
    by (simp_all add: valid_request_def)
  have t: "TargetWidth (config r) = tw" "TargetHeight (config r) = th"
    by (simp_all add: tw_def th_def)
  have v1: "ValidateDimensions sw sh = None" using d by (simp add: ValidateDimensions_None)
  have v2: "ValidateResizeRatio sw sh tw th = None"
    using vr by (simp add: ValidateResizeRatio_valid_request)
  have nn: "0 \<le> tw" "0 \<le> th" using d by simp_all
  note rect = paint_Rect [OF nn]
  have "\<exists>img. Resize r (Some src) = Inr img \<and>
           OutBounds img = \<lparr>MinX = 0, MinY = 0, MaxX = tw, MaxY = th\<rparr>"
    unfolding Resize_def option.case Let_def sw_def [symmetric] sh_def [symmetric] t v1 v2
    by (cases "ColorModel src")
       (simp_all add: resizeRGBA_valid [OF d t] resizeRGBA64_valid [OF d t]
          resizeGray_valid [OF d t] resizeGray16_valid [OF d t] rect)
  then show ?thesis by (simp add: t)
qed

lemma Resize_invalid:
  assumes "\<not> valid_request (Dx (Bounds src)) (Dy (Bounds src))
             (TargetWidth (config r)) (TargetHeight (config r))"
  shows "\<exists>e. root e = ErrInvalidDimension \<and>
           (\<forall>src'. Bounds src' = Bounds src \<longrightarrow> Resize r (Some src') = Inl
               e)"
proof (cases "ValidateDimensions (Dx (Bounds src)) (Dy (Bounds src))")
  case None
  from assms obtain e where e: "ValidateResizeRatio (Dx (Bounds src)) (Dy (Bounds src))
             (TargetWidth (config r)) (TargetHeight (config r)) = Some e"
    by (cases "ValidateResizeRatio (Dx (Bounds src)) (Dy (Bounds src))
             (TargetWidth (config r)) (TargetHeight (config r))")
       (simp_all add: ValidateResizeRatio_valid_request)
  then have "root (Wrap ''invalid resize ratio'' e) = ErrInvalidDimension"
    by (simp add: ValidateResizeRatio_Some)
  moreover have "\<forall>src'. Bounds src' = Bounds src \<longrightarrow>
     Resize r (Some src') = Inl (Wrap ''invalid resize ratio'' e)"
    by (simp add: Resize_def None e)
  ultimately show ?thesis by blast
next
  case (Some e)
  then have "root (Wrap ''invalid source dimensions'' e) = ErrInvalidDimension"
    by (simp add: ValidateDimensions_Some)
  moreover have "\<forall>src'. Bounds src' = Bounds src \<longrightarrow>
     Resize r (Some src') = Inl (Wrap ''invalid source dimensions'' e)"
    by (simp add: Resize_def Some)
  ultimately show ?thesis by blast
qed

lemma GetSafeIndex_range:
  assumes "1 \<le> n"
  shows "0 \<le> GetSafeIndex i n" and "GetSafeIndex i n < n"
  using assms by (simp_all add: GetSafeIndex_def)

lemma Gray_RGBA_channel: "drop_bit 8 (fst (Gray_RGBA v)) = ucast v"
  by (rule bit_word_eqI) (auto simp: Gray_RGBA_def Let_def bit_simps dest: bit_imp_le_length)

lemma unat_ucast_8_32: "unat (ucast (v :: 8 word) :: 32 word) = unat v"
proof -
  have "unat v < 2 ^ 8" using unsigned_less [of v, where 'a = nat] by simp
  also have "(2::nat) ^ 8 \<le> 2 ^ 32" by simp
  finally have "take_bit 32 (unat v) = unat v" by (simp only: take_bit_nat_eq_self)
  then show ?thesis by (simp add: unsigned_ucast_eq)
qed

lemma Resize_kind:
  assumes "Resize r (Some src) = Inr img"
  shows "case img of
           RGBA p \<Rightarrow> ColorModel src \<in> {RGBAModel, NRGBAModel, OtherModel}
         | RGBA64 p \<Rightarrow> ColorModel src \<in> {RGBA64Model, NRGBA64Model}
         | Gray p \<Rightarrow> ColorModel src = GrayModel
         | Gray16 p \<Rightarrow> ColorModel src = Gray16Model"
  using assms
  by (cases "ColorModel src")
     (auto simp: Resize_def Let_def map_sum_def split: option.splits sum.splits)

lemma ClampUint8_near_word:
  assumes "\<bar>v - real (unat (c :: 8 word))\<bar> \<le> 1 / 4"
  shows "ClampUint8 (Finite v) = c"
proof -
  have "unat c < 2 ^ 8" using unsigned_less [of c, where 'a = nat] by simp
  then have "unat c \<le> 255" by simp
  from ClampUint8_near [OF assms this] show ?thesis by (simp add: of_nat_unat)
qed

lemma sampleGray_uniform:
  assumes "1 \<le> w" "w \<le> 65535" "1 \<le> h" "h \<le> 65535"
    and "0 \<le> cx" "cx < of_int w" "0 \<le> cy" "cy < of_int h"
    and u: "\<And>x y. 0 \<le> x \<Longrightarrow> x < w \<Longrightarrow> 0 \<le> y
        \<Longrightarrow> y < h \<Longrightarrow> At src x y = Gray_RGBA c"
  shows "sampleGray r src (Finite cx) (Finite cy) w h = Inr c"
proof -
  from sampleGray_in_range [OF assms(1-8), of r src] obtain v where
    v: "sampleGray r src (Finite cx) (Finite cy) w h = Inr (ClampUint8 (Finite v))"
      "\<bar>v - interp (rwindow src (\<lambda>(gray, g32, b32, a32). real (unat (drop_bit 8
          gray)))
                            (\<lfloor>cx\<rfloor> - 1) (\<lfloor>cy\<rfloor> - 1) w h)
                     (round64 (frac cx)) (round64 (frac cy))\<bar> \<le> 1 / 16"
    by blast
  have px: "At src (GetSafeIndex i w) (GetSafeIndex j h) = Gray_RGBA c" for i j
    by (intro u GetSafeIndex_range assms)
  have big: "cx < 2 ^ 53" "cy < 2 ^ 53" using assms(2,4,6,8) by simp_all
  note fx = frac_offset [OF assms(5) big(1)]
  note fy = frac_offset [OF assms(7) big(2)]
  have "interp (rwindow src (\<lambda>(gray, g32, b32, a32). real (unat (drop_bit 8 gray)))
                            (\<lfloor>cx\<rfloor> - 1) (\<lfloor>cy\<rfloor> - 1) w h)
                     (round64 (frac cx)) (round64 (frac cy)) = real (unat c)"
    unfolding rwindow_def list.map px split_beta Gray_RGBA_channel unat_ucast_8_32
    by (rule interp_const [OF fx(2,3) fy(2,3)])
  with v(2) have "\<bar>v - real (unat c)\<bar> \<le> 1 / 4" by simp
  then have "ClampUint8 (Finite v) = c" by (rule ClampUint8_near_word)
  with v(1) show ?thesis by simp
qed

lemma resizeGray_uniform:
  assumes "1 \<le> sw" "sw \<le> 65535" "1 \<le> sh" "sh \<le> 65535"
    and "1 \<le> tw" "tw \<le> 65535" "1 \<le> th" "th \<le> 65535"
    and "TargetWidth (config r) = tw" "TargetHeight (config r) = th"
    and u: "\<And>x y. 0 \<le> x \<Longrightarrow> x < sw \<Longrightarrow> 0 \<le> y
        \<Longrightarrow> y < sh \<Longrightarrow> At src x y = Gray_RGBA v"
  shows "resizeGray r src sw sh
         = Inr \<lparr>Pix = replicate (nat (tw * th)) v, Stride = tw,
                 Rect = \<lparr>MinX = 0, MinY = 0, MaxX = tw, MaxY = th\<rparr>\<rparr>"
proof -
  have vd: "ValidateDimensions tw th = None"
    using assms(5-8) by (simp add: ValidateDimensions_None)
  have "scan (\<lambda>srcX srcY. sampleGray r src srcX srcY sw sh) sw sh tw th
          (NewBuffer 0 (image_Rect 0 0 tw th))
        = Inr (paint (\<lambda>x y. v) tw th (NewBuffer 0 (image_Rect 0 0 tw th)))"
  proof (rule scan_success)
    fix x y assume xy: "0 \<le> x" "x < tw" "0 \<le> y" "y < th"
    from src_center_range [OF assms(1,2,5,6) xy(1,2)] obtain cx where
      cx: "src_center x sw tw = Finite cx" "0 \<le> cx" "cx < of_int sw" by blast
    from src_center_range [OF assms(3,4,7,8) xy(3,4)] obtain cy where
      cy: "src_center y sh th = Finite cy" "0 \<le> cy" "cy < of_int sh" by blast
    show "sampleGray r src (src_center x sw tw) (src_center y sh th) sw sh = Inr v"
      unfolding cx(1) cy(1) by (rule sampleGray_uniform [OF assms(1-4) cx(2,3) cy(2,3) u])
  qed
  then show ?thesis
    by (simp add: resizeGray_def assms(9,10) vd paint_const [OF assms(5,7)])
qed

lemma Resize_uniform_gray:
  assumes "ColorModel src = GrayModel" and "Dx (Bounds src) = 4" and "Dy (Bounds src) = 4"
    and "\<And>x y. 0 \<le> x \<Longrightarrow> x < 4 \<Longrightarrow> 0 \<le> y
        \<Longrightarrow> y < 4 \<Longrightarrow> At src x y = Gray_RGBA v"
    and "TargetWidth (config r) = 8" and "TargetHeight (config r) = 8"
  shows "Resize r (Some src)
           = Inr (Gray \<lparr>Pix = replicate 64 v, Stride = 8, Rect = image_Rect 0 0 8
               8\<rparr>)"
proof -
  have v1: "ValidateDimensions 4 4 = None" by (simp add: ValidateDimensions_None)
  have v2: "ValidateResizeRatio 4 4 8 8 = None"
    by (simp add: ValidateResizeRatio_valid_request valid_request_def)
  have "resizeGray r src 4 4
         = Inr \<lparr>Pix = replicate (nat (8 * 8)) v, Stride = 8,
                 Rect = \<lparr>MinX = 0, MinY = 0, MaxX = 8, MaxY = 8\<rparr>\<rparr>"
    by (rule resizeGray_uniform) (simp_all add: assms(4,5,6))
  then show ?thesis
    by (simp add: Resize_def assms(1,2,3,5,6) v1 v2 image_Rect_def)
qed

section \<open>Facts about constant windows\<close>

lemma InterpolateBicubic_offsets:
  assumes "0 \<le> dx" "dx \<le> 1" "0 \<le> dy" "dy \<le> 1"
  shows "InterpolateBicubic pixels (Finite dx) (Finite dy) \<noteq> Inl ErrInvalidCoordinate"
  using assms by (simp add: InterpolateBicubic_def Let_def)

lemma offset_zero:
  assumes "\<bar>k\<bar> \<le> 2 ^ 53"
  shows "float64_of_int k - Finite 0 = Finite (of_int k)"
proof -
  have "\<bar>real_of_int k\<bar> \<le> 2 ^ 1000"
  proof -
    have "real_of_int \<bar>k\<bar> \<le> real_of_int (2 ^ 53)" using assms by (simp only:
        of_int_le_iff)
    then have "\<bar>real_of_int k\<bar> \<le> 2 ^ 53" by simp
    moreover have "(2::real) ^ 53 \<le> 2 ^ 1000" by simp
    ultimately show ?thesis by linarith
  qed
  then have "fl (real_of_int k) = Finite (round64 (real_of_int k))" by (rule fl_Finite)
  then show ?thesis
    by (simp add: float64_of_int_exact [OF assms] minus_float64_def round64_int [OF assms])
qed

lemma weights_normalized:
  assumes "0 \<le> d" and "d \<le> 1"
  shows "\<exists>w0 w1 w2 w3.
           CubicWeight (float64_of_int (- 1) - Finite d) = Finite w0 \<and>
           CubicWeight (float64_of_int 0 - Finite d) = Finite w1 \<and>
           CubicWeight (float64_of_int 1 - Finite d) = Finite w2 \<and>
           CubicWeight (float64_of_int 2 - Finite d) = Finite w3 \<and>
           \<bar>w0 + w1 + w2 + w3 - 1\<bar> \<le> 4432 / 2 ^ 53"
proof -
  from weight_apx [OF assms, of "- 1"] obtain w0 where
    w0: "CubicWeight (float64_of_int (- 1) - Finite d) = Finite w0"
      "\<bar>w0 - cw (- 1 - d)\<bar> \<le> 1108 / 2 ^ 53"
    by (auto simp: apx_def)
  from weight_apx [OF assms, of 0] obtain w1 where
    w1: "CubicWeight (float64_of_int 0 - Finite d) = Finite w1"
      "\<bar>w1 - cw (0 - d)\<bar> \<le> 1108 / 2 ^ 53"
    by (auto simp: apx_def)
  from weight_apx [OF assms, of 1] obtain w2 where
    w2: "CubicWeight (float64_of_int 1 - Finite d) = Finite w2"
      "\<bar>w2 - cw (1 - d)\<bar> \<le> 1108 / 2 ^ 53"
    by (auto simp: apx_def)
  from weight_apx [OF assms, of 2] obtain w3 where
    w3: "CubicWeight (float64_of_int 2 - Finite d) = Finite w3"
      "\<bar>w3 - cw (2 - d)\<bar> \<le> 1108 / 2 ^ 53"
    by (auto simp: apx_def)
  have k: "(1108 / 2 ^ 53 :: real) + 1108 / 2 ^ 53 + 1108 / 2 ^ 53 + 1108 / 2 ^ 53 = 4432 / 2 ^
      53"
    by simp
  from cw_partition [OF assms] w0(2) w1(2) w2(2) w3(2)
  have "\<bar>w0 + w1 + w2 + w3 - 1\<bar>
          \<le> 1108 / 2 ^ 53 + 1108 / 2 ^ 53 + 1108 / 2 ^ 53 + 1108 / 2 ^ 53"
    by linarith
  then have "\<bar>w0 + w1 + w2 + w3 - 1\<bar> \<le> 4432 / 2 ^ 53" unfolding k .
  with w0(1) w1(1) w2(1) w3(1) show ?thesis by blast
qed

lemma InterpolateBicubic_const:
  assumes "0 \<le> c" "c \<le> 4294967296" "0 \<le> dx" "dx \<le> 1" "0 \<le> dy" "dy \<le> 1"
  shows "\<exists>v. InterpolateBicubic (replicate 4 (replicate 4 (Finite c))) (Finite dx)
      (Finite dy)
                = Inr (Finite v) \<and> \<bar>v - c\<bar> \<le> 1 / 16"
proof -
  have r: "replicate 4 (replicate 4 (Finite c))
          = [[Finite c, Finite c, Finite c, Finite c], [Finite c, Finite c, Finite c, Finite c],
             [Finite c, Finite c, Finite c, Finite c], [Finite c, Finite c, Finite c, Finite c]]"
    by (simp add: numeral_eq_Suc)
  have "\<exists>v. InterpolateBicubic
         [[Finite c, Finite c, Finite c, Finite c], [Finite c, Finite c, Finite c, Finite c],
          [Finite c, Finite c, Finite c, Finite c], [Finite c, Finite c, Finite c, Finite c]]
         (Finite dx) (Finite dy) = Inr (Finite v) \<and>
       \<bar>v - interp [[c, c, c, c], [c, c, c, c], [c, c, c, c], [c, c, c, c]] dx dy\<bar>
           \<le> 1 / 16"
    by (rule InterpolateBicubic_apx) (simp_all add: assms)
  then show ?thesis
    unfolding r interp_const [OF assms(3-6)] .
qed

section \<open>Claims about the kernel functions\<close>

text \<open>
  C1, as stated, gives \<open>CubicWeight(0) = 1\<close>. The code does not return 1 at 0.
\<close>

theorem CubicWeight_zero_not_one: "CubicWeight (Finite 0) \<noteq> Finite 1"
  by (simp add: CubicWeight_at_0)

text \<open>
  C1 (as amended). The Mitchell-Netravali cubic with \<open>B = C = 1/3\<close> has the value
  \<open>(6 - 2B)/6 = 8/9\<close> at 0; the code returns the \<open>float64\<close> nearest to
      \<open>8/9\<close>, which is
  \<open>2001599834386887 / 2^51\<close>. The tail is as claimed: for every real \<open>x\<close>
      with
  \<open>|x| \<ge> 2\<close> the weight is 0.
\<close>

theorem CubicWeight_zero_and_tail:
  "CubicWeight (Finite 0) = Finite (round64 (8 / 9)) \<and>
   round64 (8 / 9) = 2001599834386887 / 2 ^ 51 \<and>
   (\<forall>x. 2 \<le> \<bar>x\<bar> \<longrightarrow> CubicWeight (Finite x) = Finite 0)"
  by (simp add: CubicWeight_at_0 round64_8_9 CubicWeight_tail)

theorem CubicWeight_zero_and_tail_witness:
  "2 \<le> \<bar>- 5 / 2 :: real\<bar> \<and> CubicWeight (Finite (- 5 / 2)) = Finite 0"
proof -
  have h: "2 \<le> \<bar>- 5 / 2 :: real\<bar>" by simp
  from CubicWeight_zero_and_tail
  have "\<forall>x. 2 \<le> \<bar>x\<bar> \<longrightarrow> CubicWeight (Finite x) = Finite 0" by
      simp
  with h show ?thesis by blast
qed

text \<open>
  C5. \<open>CalculateKernelBounds\<close> fails, with the invalid-coordinate error, exactly when
  \<open>center < 0\<close> or \<open>center \<ge> size\<close> (the comparisons are those of the
      code, so the
  infinities are rejected too). For an in-range center it returns
  \<open>(floor center - 1, floor center + 3)\<close>: the span is 4 wide, and it is not clipped
      to
  \<open>[0, size)\<close> (a center below 1 gives start \<open>-1\<close>). The size is at most
      \<open>2^53\<close>, the
  range in which \<open>float64(size)\<close> is exact.
\<close>

theorem CalculateKernelBounds_spec:
  "(CalculateKernelBounds center n = Inl ErrInvalidCoordinate \<longleftrightarrow>
      center < Finite 0 \<or> center \<ge> float64_of_int n) \<and>
   (\<forall>e. CalculateKernelBounds center n = Inl e \<longrightarrow> e =
       ErrInvalidCoordinate) \<and>
   (\<forall>s e. CalculateKernelBounds center n = Inr (s, e) \<longrightarrow> e = s + 4) \<and>
   (n \<le> 2 ^ 53 \<longrightarrow> 0 \<le> c \<longrightarrow> c < of_int n \<longrightarrow>
      CalculateKernelBounds (Finite c) n = Inr (\<lfloor>c\<rfloor> - 1, \<lfloor>c\<rfloor> - 1
          + 4))"
proof (intro conjI allI impI)
  show "CalculateKernelBounds center n = Inl ErrInvalidCoordinate \<longleftrightarrow>
      center < Finite 0 \<or> center \<ge> float64_of_int n"
    by (simp add: CalculateKernelBounds_def Let_def)
next
  fix e assume "CalculateKernelBounds center n = Inl e"
  then show "e = ErrInvalidCoordinate"
    by (simp add: CalculateKernelBounds_def Let_def split: if_splits)
next
  fix s e assume "CalculateKernelBounds center n = Inr (s, e)"
  then show "e = s + 4"
    by (auto simp: CalculateKernelBounds_def Let_def KernelSize_def split: if_splits)
next
  assume "n \<le> 2 ^ 53" "0 \<le> c" "c < of_int n"
  then show "CalculateKernelBounds (Finite c) n = Inr (\<lfloor>c\<rfloor> - 1,
      \<lfloor>c\<rfloor> - 1 + 4)"
    by (simp add: CalculateKernelBounds_in_range)
qed

theorem CalculateKernelBounds_spec_witness:
  "CalculateKernelBounds (Finite (1 / 2)) 3 = Inr (- 1, 3) \<and>
   CalculateKernelBounds (Finite 3) 3 = Inl ErrInvalidCoordinate \<and>
   CalculateKernelBounds (Finite (- 1 / 4)) 3 = Inl ErrInvalidCoordinate"
proof -
  have h: "(3::int) \<le> 2 ^ 53" "(0::real) \<le> 1 / 2" "(1 / 2 :: real) < of_int 3" by simp_all
  from CalculateKernelBounds_spec [of "Finite (1 / 2)" 3 "1 / 2"] h
  have a: "CalculateKernelBounds (Finite (1 / 2)) 3 = Inr (- 1, 3)" by simp
  from CalculateKernelBounds_spec [of "Finite 3" 3 0]
  have b: "CalculateKernelBounds (Finite 3) 3 = Inl ErrInvalidCoordinate"
    by (simp add: float64_of_int_exact)
  from CalculateKernelBounds_spec [of "Finite (- 1 / 4)" 3 0]
  have c: "CalculateKernelBounds (Finite (- 1 / 4)) 3 = Inl ErrInvalidCoordinate"
    by (simp add: float64_of_int_exact)
  from a b c show ?thesis by simp
qed

text \<open>
  C6. For every finite \<open>v\<close>, \<open>ClampUint8 v\<close> is \<open>v + 0.5\<close>
      truncated to an integer and
  clamped into \<open>[0, 255]\<close>, and \<open>ClampUint16 v\<close> the same in \<open>[0,
      65535]\<close>, where
  \<open>v + 0.5\<close> is the \<open>float64\<close> sum, that is the real sum rounded to the
      nearest
  \<open>float64\<close>; positive infinity gives the upper bound and negative infinity gives 0;
      no
  input gives a value outside the range. The rounding of the sum is visible in the
  result: the largest \<open>float64\<close> below \<open>1/2\<close> is clamped to 1, because
      adding \<open>0.5\<close> to it
  gives \<open>1\<close>.
\<close>

theorem Clamp_range:
  "unat (ClampUint8 (Finite v)) = nat (max 0 (min 255 (trunc (round64 (v + 1 / 2))))) \<and>
   unat (ClampUint16 (Finite v)) = nat (max 0 (min 65535 (trunc (round64 (v + 1 / 2))))) \<and>
   Finite v + Finite 0.5 = fl (v + 1 / 2) \<and>
   unat (ClampUint8 (Finite v)) \<le> 255 \<and> unat (ClampUint16 (Finite v)) \<le> 65535 \<and>
   ClampUint8 PosInf = 255 \<and> ClampUint8 NegInf = 0 \<and>
   ClampUint16 PosInf = 65535 \<and> ClampUint16 NegInf = 0 \<and>
   ClampUint8 (Finite (9007199254740991 / 2 ^ 54)) = 1 \<and>
   ClampUint16 (Finite (9007199254740991 / 2 ^ 54)) = 1"
proof -
  have "ClampUint8 PosInf = 255" "ClampUint8 NegInf = 0"
    by (simp_all add: ClampUint8_def)
  moreover have "ClampUint16 PosInf = 65535" "ClampUint16 NegInf = 0"
    by (simp_all add: ClampUint16_def)
  moreover have "unat (ClampUint8 (Finite v)) \<le> 255" "unat (ClampUint16 (Finite v)) \<le>
      65535"
    by (simp_all add: ClampUint8_Finite ClampUint16_Finite)
  moreover have r: "round64 (9007199254740991 / 2 ^ 54 + 1 / 2) = 1"
    by (subst round64_eval [where e = "- 1"]) (simp_all add: rne_def Let_def)
  have "unat (ClampUint8 (Finite (9007199254740991 / 2 ^ 54))) = 1"
    by (simp only: ClampUint8_Finite r) (simp add: trunc_def)
  then have "of_nat (unat (ClampUint8 (Finite (9007199254740991 / 2 ^ 54)))) = (1 :: 8 word)"
    by (simp only: of_nat_1)
  then have "ClampUint8 (Finite (9007199254740991 / 2 ^ 54)) = 1"
    by (simp only: of_nat_unat ucast_id)
  moreover have "unat (ClampUint16 (Finite (9007199254740991 / 2 ^ 54))) = 1"
    by (simp only: ClampUint16_Finite r) (simp add: trunc_def)
  then have "of_nat (unat (ClampUint16 (Finite (9007199254740991 / 2 ^ 54)))) = (1 :: 16 word)"
    by (simp only: of_nat_1)
  then have "ClampUint16 (Finite (9007199254740991 / 2 ^ 54)) = 1"
    by (simp only: of_nat_unat ucast_id)
  moreover have "Finite v + Finite 0.5 = fl (v + 1 / 2)" by simp
  ultimately show ?thesis
    by (simp only: ClampUint8_Finite ClampUint16_Finite simp_thms)
qed

text \<open>
  C7. For a positive size \<open>n\<close>, \<open>GetSafeIndex i n\<close> is 0 for \<open>i <
      0\<close>, \<open>n - 1\<close> for
  \<open>i \<ge> n\<close>, and \<open>i\<close> for \<open>0 \<le> i < n\<close>.
\<close>

theorem GetSafeIndex_spec:
  assumes "0 < n"
  shows "(i < 0 \<longrightarrow> GetSafeIndex i n = 0) \<and>
         (n \<le> i \<longrightarrow> GetSafeIndex i n = n - 1) \<and>
         (0 \<le> i \<and> i < n \<longrightarrow> GetSafeIndex i n = i)"
  using assms by (simp add: GetSafeIndex_def)

theorem GetSafeIndex_spec_witness:
  "(0::int) < 4 \<and> GetSafeIndex (- 1) 4 = 0 \<and> GetSafeIndex 7 4 = 3 \<and> GetSafeIndex 2
      4 = 2"
proof -
  have h: "(0::int) < 4" by simp
  from GetSafeIndex_spec [OF h, of "- 1"] GetSafeIndex_spec [OF h, of 7]
    GetSafeIndex_spec [OF h, of 2]
  show ?thesis by simp
qed

text \<open>
  C9, as stated, has the two pieces agree exactly at \<open>|x| = 1\<close>, where both are
  \<open>1/18\<close>. In \<open>float64\<close> they do not: at 1 the code evaluates the second
      piece and
  returns \<open>31274997412295 / 2^49\<close>, which is neither \<open>1/18\<close> nor the
      \<open>float64\<close> nearest
  to \<open>1/18\<close> (that is \<open>2001599834386887 / 2^55\<close>), and the expression of
      the first piece
  gives a third value at 1.
\<close>

theorem CubicWeight_pieces_differ:
  "CubicWeight (Finite 1) = Finite (31274997412295 / 2 ^ 49) \<and>
   CubicWeight (Finite 1) \<noteq> Finite (1 / 18) \<and>
   CubicWeight (Finite 1) \<noteq> Finite (round64 (1 / 18)) \<and>
   (const64 7 * Finite 1 * Finite 1 * Finite 1 + const64 (- 12) * Finite 1 * Finite 1
      + const64 (16 / 3)) / const64 6 = Finite (8006399337547541 / 2 ^ 57) \<and>
   (const64 7 * Finite 1 * Finite 1 * Finite 1 + const64 (- 12) * Finite 1 * Finite 1
      + const64 (16 / 3)) / const64 6 \<noteq> CubicWeight (Finite 1)"
proof -
  have e1: "const64 7 = Finite 7"
    by (simp only: times_float64.simps plus_float64.simps const64_def, rule fl_eval_pos [where e
        = "2"])
       (simp_all add: rne_def Let_def)
  have e2: "const64 (- 12) = Finite (- 12)"
    by (simp only: times_float64.simps plus_float64.simps const64_def, rule fl_eval_neg [where e
        = "3"])
       (simp_all add: rne_def Let_def)
  have e3: "const64 (16 / 3) = Finite (6004799503160661 / 2 ^ 50)"
    by (simp only: times_float64.simps plus_float64.simps const64_def, rule fl_eval_pos [where e
        = "2"])
       (simp_all add: rne_def Let_def)
  have e4: "const64 6 = Finite 6"
    by (simp only: times_float64.simps plus_float64.simps const64_def, rule fl_eval_pos [where e
        = "2"])
       (simp_all add: rne_def Let_def)
  have e5: "Finite 7 * Finite 1 = Finite 7"
    by (simp only: times_float64.simps plus_float64.simps const64_def, rule fl_eval_pos [where e
        = "2"])
       (simp_all add: rne_def Let_def)
  have e6: "Finite (- 12) * Finite 1 = Finite (- 12)"
    by (simp only: times_float64.simps plus_float64.simps const64_def, rule fl_eval_neg [where e
        = "3"])
       (simp_all add: rne_def Let_def)
  have e7: "Finite 7 + Finite (- 12) = Finite (- 5)"
    by (simp only: times_float64.simps plus_float64.simps const64_def, rule fl_eval_neg [where e
        = "2"])
       (simp_all add: rne_def Let_def)
  have e8: "Finite (- 5) + Finite (6004799503160661 / 2 ^ 50) = Finite (375299968947541 / 2 ^ 50)"
    by (simp only: times_float64.simps plus_float64.simps const64_def, rule fl_eval_pos [where e
        = "- 2"])
       (simp_all add: rne_def Let_def)
  have e9: "Finite (375299968947541 / 2 ^ 50) / Finite 6 = Finite (8006399337547541 / 2 ^ 57)"
    by (rule div_fl, simp, rule fl_eval_pos [where e = "- 5"])
       (simp_all add: rne_def Let_def)
  have p: "(const64 7 * Finite 1 * Finite 1 * Finite 1 + const64 (- 12) * Finite 1 * Finite 1
      + const64 (16 / 3)) / const64 6 = Finite (8006399337547541 / 2 ^ 57)"
    by (simp only: e1 e2 e3 e4 e5 e6 e7 e8 e9)
  show ?thesis
    unfolding p by (simp add: CubicWeight_at_1 round64_1_18)
qed

text \<open>
  C9 (as amended). On the reals the two pieces agree at \<open>|x| = 1\<close>, where both are
  \<open>1/18\<close>, the second piece is 0 at \<open>|x| = 2\<close>, and the cubic
      \<open>cw\<close> is continuous
  everywhere. The code computes \<open>cw\<close> up to rounding: for every finite
      \<open>x\<close> the result
  is finite and within \<open>1088 / 2^53\<close> of \<open>cw x\<close>. So the values computed
      at any two
  points \<open>x\<close> and \<open>y\<close> differ by at most \<open>4 |x - y| + 2176 /
      2^53\<close>, which is less than
  \<open>10^-9\<close> when \<open>x\<close> and \<open>y\<close> are within
      \<open>10^-10\<close> of each other; across a piece
  boundary too. At \<open>|x| = 2\<close> the code returns exactly 0.
\<close>

theorem CubicWeight_continuous:
  "(\<exists>w. CubicWeight (Finite x) = Finite w \<and> \<bar>w - cw x\<bar> \<le> 1088 / 2 ^
      53) \<and>
   (\<exists>a b. CubicWeight (Finite x) = Finite a \<and> CubicWeight (Finite y) = Finite b
       \<and>
      \<bar>a - b\<bar> \<le> 4 * \<bar>x - y\<bar> + 2176 / 2 ^ 53 \<and>
      (\<bar>x - y\<bar> \<le> 1 / 10 ^ 10 \<longrightarrow> \<bar>a - b\<bar> < 1 / 10 ^ 9))
          \<and>
   cw 1 = 1 / 18 \<and> cw (- 1) = 1 / 18 \<and> cw 2 = 0 \<and> cw (- 2) = 0 \<and> isCont cw x
       \<and>
   CubicWeight (Finite 2) = Finite 0 \<and> CubicWeight (Finite (- 2)) = Finite 0"
proof -
  from CubicWeight_near [of x] obtain a where
    a: "CubicWeight (Finite x) = Finite a" "\<bar>a - cw x\<bar> \<le> 1088 / 2 ^ 53" by blast
  from CubicWeight_near [of y] obtain b where
    b: "CubicWeight (Finite y) = Finite b" "\<bar>b - cw y\<bar> \<le> 1088 / 2 ^ 53" by blast
  have l: "\<bar>cw x - cw y\<bar> \<le> 4 * \<bar>x - y\<bar>" by (rule cw_lipschitz)
  have k: "(1088 / 2 ^ 53 :: real) + 1088 / 2 ^ 53 = 2176 / 2 ^ 53" by simp
  from a(2) b(2) l have "\<bar>a - b\<bar> \<le> 4 * \<bar>x - y\<bar> + (1088 / 2 ^ 53 + 1088 /
      2 ^ 53)" by linarith
  then have d: "\<bar>a - b\<bar> \<le> 4 * \<bar>x - y\<bar> + 2176 / 2 ^ 53" unfolding k .
  have s: "4 * (1 / 10 ^ 10) + 2176 / 2 ^ 53 < (1 / 10 ^ 9 :: real)" by simp
  have e: "\<bar>a - b\<bar> < 1 / 10 ^ 9" if "\<bar>x - y\<bar> \<le> 1 / 10 ^ 10"
  proof -
    from that have "4 * \<bar>x - y\<bar> + 2176 / 2 ^ 53 \<le> 4 * (1 / 10 ^ 10) + 2176 / 2 ^ 53"
      by simp
    with d have "\<bar>a - b\<bar> \<le> 4 * (1 / 10 ^ 10) + 2176 / 2 ^ 53" by (rule order_trans)
    then show ?thesis using s by (rule le_less_trans)
  qed
  have "\<exists>a b. CubicWeight (Finite x) = Finite a \<and> CubicWeight (Finite y) = Finite b
      \<and>
      \<bar>a - b\<bar> \<le> 4 * \<bar>x - y\<bar> + 2176 / 2 ^ 53 \<and>
      (\<bar>x - y\<bar> \<le> 1 / 10 ^ 10 \<longrightarrow> \<bar>a - b\<bar> < 1 / 10 ^ 9)"
    using a(1) b(1) d e by blast
  moreover have "\<exists>w. CubicWeight (Finite x) = Finite w \<and> \<bar>w - cw x\<bar> \<le>
      1088 / 2 ^ 53"
    by (rule CubicWeight_near)
  moreover have "cw 1 = 1 / 18" "cw (- 1) = 1 / 18" "cw 2 = 0" "cw (- 2) = 0"
    by (simp_all add: cw_def)
  moreover have "CubicWeight (Finite 2) = Finite 0" "CubicWeight (Finite (- 2)) = Finite 0"
    by (simp_all add: CubicWeight_tail)
  ultimately show ?thesis using cw_isCont [of x] by blast
qed

theorem CubicWeight_continuous_witness:
  "\<bar>1 - (1 - 1 / 10 ^ 10) :: real\<bar> \<le> 1 / 10 ^ 10 \<and>
   (\<exists>a b. CubicWeight (Finite 1) = Finite a \<and>
      CubicWeight (Finite (1 - 1 / 10 ^ 10)) = Finite b \<and> \<bar>a - b\<bar> < 1 / 10 ^ 9)"
proof -
  have h: "\<bar>1 - (1 - 1 / 10 ^ 10) :: real\<bar> \<le> 1 / 10 ^ 10" by simp
  from CubicWeight_continuous [of 1 "1 - 1 / 10 ^ 10"] obtain a b where
    "CubicWeight (Finite 1) = Finite a" "CubicWeight (Finite (1 - 1 / 10 ^ 10)) = Finite b"
    "\<bar>1 - (1 - 1 / 10 ^ 10) :: real\<bar> \<le> 1 / 10 ^ 10 \<longrightarrow> \<bar>a -
        b\<bar> < 1 / 10 ^ 9"
    by blast
  with h show ?thesis by blast
qed

section \<open>Claims about the resample engine\<close>

text \<open>
  C2. For a valid request (source and target dimensions in \<open>[1, 65535]\<close>, each ratio
      in
  \<open>[1/16, 16]\<close>) and a non-nil source, \<open>Resize\<close> succeeds, and the image
      it returns
  has width \<open>TargetWidth\<close> and height \<open>TargetHeight\<close> exactly. The
      source's colour
  model is arbitrary, so this covers the four paths; the last conjunct names the path
  that produced the image.
\<close>

theorem Resize_output_dimensions:
  assumes "valid_request (Dx (Bounds src)) (Dy (Bounds src))
             (TargetWidth (config r)) (TargetHeight (config r))"
  shows "(\<exists>img. Resize r (Some src) = Inr img) \<and>
         (\<forall>img. Resize r (Some src) = Inr img \<longrightarrow>
            Dx (OutBounds img) = TargetWidth (config r) \<and>
            Dy (OutBounds img) = TargetHeight (config r) \<and>
            (case img of
               RGBA p \<Rightarrow> ColorModel src \<in> {RGBAModel, NRGBAModel, OtherModel}
             | RGBA64 p \<Rightarrow> ColorModel src \<in> {RGBA64Model, NRGBA64Model}
             | Gray p \<Rightarrow> ColorModel src = GrayModel
             | Gray16 p \<Rightarrow> ColorModel src = Gray16Model))"
proof -
  from Resize_valid [OF assms] obtain img0 where
    img0: "Resize r (Some src) = Inr img0"
      "OutBounds img0 = \<lparr>MinX = 0, MinY = 0, MaxX = TargetWidth (config r),
                              MaxY = TargetHeight (config r)\<rparr>"
    by blast
  have "Dx (OutBounds img) = TargetWidth (config r) \<and>
        Dy (OutBounds img) = TargetHeight (config r) \<and>
        (case img of
           RGBA p \<Rightarrow> ColorModel src \<in> {RGBAModel, NRGBAModel, OtherModel}
         | RGBA64 p \<Rightarrow> ColorModel src \<in> {RGBA64Model, NRGBA64Model}
         | Gray p \<Rightarrow> ColorModel src = GrayModel
         | Gray16 p \<Rightarrow> ColorModel src = Gray16Model)"
    if "Resize r (Some src) = Inr img" for img
  proof -
    from that img0(1) have "img = img0" by simp
    with img0(2) have "Dx (OutBounds img) = TargetWidth (config r)"
      "Dy (OutBounds img) = TargetHeight (config r)"
      by (simp_all add: Dx_def Dy_def)
    with Resize_kind [OF that] show ?thesis by simp
  qed
  with img0(1) show ?thesis by blast
qed

theorem Resize_output_dimensions_witness:
  "valid_request 4 4 8 8 \<and>
   (\<exists>img. Resize \<lparr>config = \<lparr>TargetWidth = 8, TargetHeight = 8, Quality =
       100\<rparr>\<rparr>
             (Some (uniform_gray 4 4 128)) = Inr img \<and>
          Dx (OutBounds img) = 8 \<and> Dy (OutBounds img) = 8)"
proof -
  let ?r = "\<lparr>config = \<lparr>TargetWidth = 8, TargetHeight = 8, Quality =
      100\<rparr>\<rparr>"
  have v: "valid_request 4 4 8 8" by (simp add: valid_request_def)
  then have h: "valid_request (Dx (Bounds (uniform_gray 4 4 128))) (Dy (Bounds (uniform_gray 4 4
      128)))
             (TargetWidth (config ?r)) (TargetHeight (config ?r))"
    by (simp add: uniform_gray_def image_Rect_def Dx_def Dy_def)
  from Resize_output_dimensions [OF h] v show ?thesis by auto
qed

text \<open>
  C3. For a non-nil source, \<open>Resize\<close> returns an invalid-dimension error exactly when
  the request is not valid (a source or target dimension outside \<open>[1, 65535]\<close>, or a
  ratio outside \<open>[1/16, 16]\<close>). The result is then an error and nothing else, and it
      is
  fixed by the bounds and the configuration alone: every source with the same bounds,
  whatever its pixels and colour model, gets the same error, so no pixel is read and
  no buffer is filled for a rejected request.
\<close>

theorem Resize_rejects_invalid_request:
  "((\<exists>e. Resize r (Some src) = Inl e \<and> root e = ErrInvalidDimension)
      \<longleftrightarrow>
      \<not> valid_request (Dx (Bounds src)) (Dy (Bounds src))
           (TargetWidth (config r)) (TargetHeight (config r))) \<and>
   (\<not> valid_request (Dx (Bounds src)) (Dy (Bounds src))
         (TargetWidth (config r)) (TargetHeight (config r)) \<longrightarrow>
      (\<exists>e. root e = ErrInvalidDimension \<and>
           (\<forall>src'. Bounds src' = Bounds src \<longrightarrow> Resize r (Some src') = Inl
               e)))"
proof (cases "valid_request (Dx (Bounds src)) (Dy (Bounds src))
           (TargetWidth (config r)) (TargetHeight (config r))")
  case True
  from Resize_valid [OF True] obtain img where "Resize r (Some src) = Inr img" by blast
  with True show ?thesis by simp
next
  case False
  from Resize_invalid [OF False] obtain e where
    e: "root e = ErrInvalidDimension"
      "\<forall>src'. Bounds src' = Bounds src \<longrightarrow> Resize r (Some src') = Inl e"
    by blast
  then have "Resize r (Some src) = Inl e" by simp
  with e False show ?thesis by blast
qed

theorem Resize_rejects_invalid_request_witness:
  "\<not> valid_request 10 10 170 170 \<and>
   (\<exists>e. root e = ErrInvalidDimension \<and>
        Resize \<lparr>config = \<lparr>TargetWidth = 170, TargetHeight = 170, Quality =
            100\<rparr>\<rparr>
          (Some (uniform_gray 10 10 128)) = Inl e)"
proof -
  let ?r = "\<lparr>config = \<lparr>TargetWidth = 170, TargetHeight = 170, Quality =
      100\<rparr>\<rparr>"
  let ?src = "uniform_gray 10 10 128"
  have v: "\<not> valid_request 10 10 170 170" by (simp add: valid_request_def)
  then have h: "\<not> valid_request (Dx (Bounds ?src)) (Dy (Bounds ?src))
             (TargetWidth (config ?r)) (TargetHeight (config ?r))"
    by (simp add: uniform_gray_def image_Rect_def Dx_def Dy_def)
  from Resize_rejects_invalid_request [of ?r ?src] h
  have "\<exists>e. root e = ErrInvalidDimension \<and>
           (\<forall>src'. Bounds src' = Bounds ?src \<longrightarrow> Resize ?r (Some src') =
               Inl e)"
    by blast
  then have "\<exists>e. root e = ErrInvalidDimension \<and> Resize ?r (Some ?src) = Inl e"
    by blast
  with v show ?thesis by blast
qed

text \<open>
  C4, as stated, rests on the four weights adding up to 1 for every offset, and covers
  every 4 by 4 gray image. In \<open>float64\<close> the weights at offset 0 add up to
  \<open>1 - 2^-51\<close>, not to 1. And the code reads the source at the coordinates
  \<open>(0, 0) .. (3, 3)\<close> whatever the bounds of the image are: a 4 by 4
      \<open>image.Gray\<close> whose
  bounds start at \<open>(10, 10)\<close>, every pixel 128, is read outside its bounds, where
      \<open>At\<close>
  gives the zero colour, and the 64 pixels of the result are 0.
\<close>

theorem Resize_solid_gray_counterexample:
  "CubicWeight (float64_of_int (- 1) - Finite 0) + CubicWeight (float64_of_int 0 - Finite 0)
     + CubicWeight (float64_of_int 1 - Finite 0) + CubicWeight (float64_of_int 2 - Finite 0)
     = Finite (2251799813685247 / 2 ^ 51) \<and>
   CubicWeight (float64_of_int (- 1) - Finite 0) + CubicWeight (float64_of_int 0 - Finite 0)
     + CubicWeight (float64_of_int 1 - Finite 0) + CubicWeight (float64_of_int 2 - Finite 0)
     \<noteq> Finite 1 \<and>
   Resize \<lparr>config = \<lparr>TargetWidth = 8, TargetHeight = 8, Quality =
       100\<rparr>\<rparr>
     (Some (uniform_gray_at 10 10 4 4 128))
     = Inr (Gray \<lparr>Pix = replicate 64 0, Stride = 8, Rect = image_Rect 0 0 8 8\<rparr>)"
proof -
  have o: "float64_of_int (- 1) - Finite 0 = Finite (- 1)" "float64_of_int 0 - Finite 0 = Finite
      0"
    "float64_of_int 1 - Finite 0 = Finite 1" "float64_of_int 2 - Finite 0 = Finite 2"
    using offset_zero [of "- 1"] offset_zero [of 0] offset_zero [of 1] offset_zero [of 2]
    by simp_all
  have s: "CubicWeight (float64_of_int (- 1) - Finite 0) + CubicWeight (float64_of_int 0 - Finite
      0)
     + CubicWeight (float64_of_int 1 - Finite 0) + CubicWeight (float64_of_int 2 - Finite 0)
     = Finite (2251799813685247 / 2 ^ 51)"
    unfolding o by (rule weight_sum_at_0)
  have "Resize \<lparr>config = \<lparr>TargetWidth = 8, TargetHeight = 8, Quality =
      100\<rparr>\<rparr>
     (Some (uniform_gray_at 10 10 4 4 128))
     = Inr (Gray \<lparr>Pix = replicate 64 0, Stride = 8, Rect = image_Rect 0 0 8 8\<rparr>)"
    by (rule Resize_uniform_gray)
       (simp_all add: uniform_gray_at_def image_Rect_def Dx_def Dy_def In_def)
  then show ?thesis unfolding s by simp
qed

text \<open>
  C4 (as amended). The four taps are normalized up to rounding: for every offset \<open>d\<close>
  in \<open>[0, 1]\<close> the weights that the code computes, \<open>CubicWeight(float64(k) -
      d)\<close> for
  \<open>k = -1, 0, 1, 2\<close>, are finite and their sum is within \<open>4432 / 2^53\<close>
      of 1. So
  \<open>InterpolateBicubic\<close> of a window whose 16 samples are the same \<open>c\<close>,
      \<open>0 \<le> c \<le> 2^32\<close>,
  returns a value within \<open>1/16\<close> of \<open>c\<close>, and \<open>ClampUint8\<close>
      takes every value within
  \<open>1/4\<close> of an integer \<open>n \<le> 255\<close> to \<open>n\<close>. Resizing a 4
      by 4 \<open>image.Gray\<close> whose bounds
  start at the origin and whose every pixel is 128 to 8 by 8 gives an \<open>image.Gray\<close> of
  8 by 8 whose 64 pixels are 128.
\<close>

theorem Resize_solid_gray:
  "(\<forall>d. 0 \<le> d \<and> d \<le> 1 \<longrightarrow>
      (\<exists>w0 w1 w2 w3.
         CubicWeight (float64_of_int (- 1) - Finite d) = Finite w0 \<and>
         CubicWeight (float64_of_int 0 - Finite d) = Finite w1 \<and>
         CubicWeight (float64_of_int 1 - Finite d) = Finite w2 \<and>
         CubicWeight (float64_of_int 2 - Finite d) = Finite w3 \<and>
         \<bar>w0 + w1 + w2 + w3 - 1\<bar> \<le> 4432 / 2 ^ 53)) \<and>
   (\<forall>c dx dy. 0 \<le> c \<and> c \<le> 2 ^ 32 \<and> 0 \<le> dx \<and> dx \<le> 1 \<and>
       0 \<le> dy \<and> dy \<le> 1 \<longrightarrow>
      (\<exists>v. InterpolateBicubic (replicate 4 (replicate 4 (Finite c))) (Finite dx) (Finite
          dy)
              = Inr (Finite v) \<and> \<bar>v - c\<bar> \<le> 1 / 16)) \<and>
   (\<forall>v n. n \<le> 255 \<and> \<bar>v - real n\<bar> \<le> 1 / 4 \<longrightarrow>
       ClampUint8 (Finite v) = of_nat n) \<and>
   (\<forall>(r::Resizer) (src::Image).
      ColorModel src = GrayModel \<and> Bounds src = image_Rect 0 0 4 4 \<and>
      (\<forall>x y. In x y (Bounds src) \<longrightarrow> At src x y = Gray_RGBA 128) \<and>
      TargetWidth (config r) = 8 \<and> TargetHeight (config r) = 8 \<longrightarrow>
      Resize r (Some src)
        = Inr (Gray \<lparr>Pix = replicate 64 128, Stride = 8, Rect = image_Rect 0 0 8
            8\<rparr>))"
proof (intro conjI allI impI)
  fix d :: real assume "0 \<le> d \<and> d \<le> 1"
  then show "\<exists>w0 w1 w2 w3.
         CubicWeight (float64_of_int (- 1) - Finite d) = Finite w0 \<and>
         CubicWeight (float64_of_int 0 - Finite d) = Finite w1 \<and>
         CubicWeight (float64_of_int 1 - Finite d) = Finite w2 \<and>
         CubicWeight (float64_of_int 2 - Finite d) = Finite w3 \<and>
         \<bar>w0 + w1 + w2 + w3 - 1\<bar> \<le> 4432 / 2 ^ 53"
    by (intro weights_normalized) simp_all
next
  fix c dx dy :: real
  assume "0 \<le> c \<and> c \<le> 2 ^ 32 \<and> 0 \<le> dx \<and> dx \<le> 1 \<and> 0 \<le> dy
      \<and> dy \<le> 1"
  then show "\<exists>v. InterpolateBicubic (replicate 4 (replicate 4 (Finite c))) (Finite dx)
      (Finite dy)
              = Inr (Finite v) \<and> \<bar>v - c\<bar> \<le> 1 / 16"
    by (intro InterpolateBicubic_const) simp_all
next
  fix v :: real and n :: nat
  assume "n \<le> 255 \<and> \<bar>v - real n\<bar> \<le> 1 / 4"
  then show "ClampUint8 (Finite v) = of_nat n"
    by (intro ClampUint8_near) simp_all
next
  fix r :: Resizer and src :: Image
  assume a: "ColorModel src = GrayModel \<and> Bounds src = image_Rect 0 0 4 4 \<and>
      (\<forall>x y. In x y (Bounds src) \<longrightarrow> At src x y = Gray_RGBA 128) \<and>
      TargetWidth (config r) = 8 \<and> TargetHeight (config r) = 8"
  then have d: "Dx (Bounds src) = 4" "Dy (Bounds src) = 4"
    by (simp_all add: image_Rect_def Dx_def Dy_def)
  have u: "At src x y = Gray_RGBA 128" if "0 \<le> x" "x < 4" "0 \<le> y" "y < 4" for x y
  proof -
    from that a have "In x y (Bounds src)" by (simp add: In_def image_Rect_def)
    with a show ?thesis by blast
  qed
  from a show "Resize r (Some src)
        = Inr (Gray \<lparr>Pix = replicate 64 128, Stride = 8, Rect = image_Rect 0 0 8
            8\<rparr>)"
    by (intro Resize_uniform_gray d u) simp_all
qed

theorem Resize_solid_gray_witness:
  "(0::real) \<le> 1 / 4 \<and> (1 / 4 :: real) \<le> 1 \<and>
   (\<exists>w0 w1 w2 w3.
      CubicWeight (float64_of_int (- 1) - Finite (1 / 4)) = Finite w0 \<and>
      CubicWeight (float64_of_int 0 - Finite (1 / 4)) = Finite w1 \<and>
      CubicWeight (float64_of_int 1 - Finite (1 / 4)) = Finite w2 \<and>
      CubicWeight (float64_of_int 2 - Finite (1 / 4)) = Finite w3 \<and>
      \<bar>w0 + w1 + w2 + w3 - 1\<bar> \<le> 4432 / 2 ^ 53) \<and>
   (\<exists>v. InterpolateBicubic (replicate 4 (replicate 4 (Finite 128))) (Finite (1 / 4))
       (Finite (3 / 4))
           = Inr (Finite v) \<and> \<bar>v - 128\<bar> \<le> 1 / 16) \<and>
   ClampUint8 (Finite (1281 / 10)) = 128 \<and>
   Resize \<lparr>config = \<lparr>TargetWidth = 8, TargetHeight = 8, Quality =
       100\<rparr>\<rparr>
     (Some (uniform_gray 4 4 128))
     = Inr (Gray \<lparr>Pix = replicate 64 128, Stride = 8, Rect = image_Rect 0 0 8 8\<rparr>)"
proof -
  let ?r = "\<lparr>config = \<lparr>TargetWidth = 8, TargetHeight = 8, Quality =
      100\<rparr>\<rparr>"
  let ?src = "uniform_gray 4 4 128"
  note t = Resize_solid_gray
  have d: "(0::real) \<le> 1 / 4 \<and> (1 / 4 :: real) \<le> 1" by simp
  have o: "(0::real) \<le> 128 \<and> (128::real) \<le> 2 ^ 32 \<and> (0::real) \<le> 1 / 4
      \<and> (1 / 4 :: real) \<le> 1 \<and>
      (0::real) \<le> 3 / 4 \<and> (3 / 4 :: real) \<le> 1"
    by simp
  have c: "(128::nat) \<le> 255 \<and> \<bar>1281 / 10 - real 128\<bar> \<le> 1 / 4" by simp
  have s: "ColorModel ?src = GrayModel \<and> Bounds ?src = image_Rect 0 0 4 4 \<and>
      (\<forall>x y. In x y (Bounds ?src) \<longrightarrow> At ?src x y = Gray_RGBA 128) \<and>
      TargetWidth (config ?r) = 8 \<and> TargetHeight (config ?r) = 8"
    by (simp add: uniform_gray_def)
  note t1 = t [THEN conjunct1, rule_format, OF d]
  note t2 = t [THEN conjunct2, THEN conjunct1, rule_format, OF o]
  note t3 = t [THEN conjunct2, THEN conjunct2, THEN conjunct1, rule_format, OF c]
  note t4 = t [THEN conjunct2, THEN conjunct2, THEN conjunct2, rule_format, OF s]
  from t3 have "ClampUint8 (Finite (1281 / 10)) = 128" by simp
  with d t1 t2 t4 show ?thesis by (intro conjI) simp_all
qed

text \<open>
  C8. In a valid request, for every destination pixel \<open>(x, y)\<close> the mapped centers
  \<open>srcX = (x + 0.5) * srcWidth / targetWidth\<close> and \<open>srcY\<close>, computed in
      \<open>float64\<close> as the
  code does (the ratio first, every operation rounded), are finite and in
  \<open>[0, srcWidth)\<close> and \<open>[0, srcHeight)\<close>;
      \<open>CalculateKernelBounds\<close> succeeds on both;
  the offsets \<open>dx = srcX - float64(int(srcX))\<close> and \<open>dy\<close> are computed
      without rounding
  error, they are the fractional parts of the centers and lie in \<open>[0, 1)\<close>, so
  \<open>InterpolateBicubic\<close> does not return the invalid-coordinate error on any window;
  each of the four \<open>sample\<close> functions succeeds; and \<open>Resize\<close> as a whole
      succeeds,
  so it returns no error at all.
\<close>

theorem valid_request_coordinates:
  assumes "valid_request sw sh tw th"
  shows "(\<forall>x y. 0 \<le> x \<and> x < tw \<and> 0 \<le> y \<and> y < th \<longrightarrow>
           (\<exists>cx cy.
              (float64_of_int x + Finite 0.5) * (float64_of_int sw / float64_of_int tw) = Finite
                  cx \<and>
              (float64_of_int y + Finite 0.5) * (float64_of_int sh / float64_of_int th) = Finite
                  cy \<and>
              0 \<le> cx \<and> cx < of_int sw \<and> 0 \<le> cy \<and> cy < of_int sh \<and>
              CalculateKernelBounds (Finite cx) sw = Inr (\<lfloor>cx\<rfloor> - 1,
                  \<lfloor>cx\<rfloor> - 1 + 4) \<and>
              CalculateKernelBounds (Finite cy) sh = Inr (\<lfloor>cy\<rfloor> - 1,
                  \<lfloor>cy\<rfloor> - 1 + 4) \<and>
              (\<exists>dx dy.
                 Finite cx - float64_of_int (int_of_float64 (Finite cx)) = Finite dx \<and>
                 Finite cy - float64_of_int (int_of_float64 (Finite cy)) = Finite dy \<and>
                 dx = frac cx \<and> dy = frac cy \<and>
                 0 \<le> dx \<and> dx < 1 \<and> 0 \<le> dy \<and> dy < 1 \<and>
                 (\<forall>pixels. InterpolateBicubic pixels (Finite dx) (Finite dy)
                              \<noteq> Inl ErrInvalidCoordinate)) \<and>
              (\<forall>(r::Resizer) (src::Image).
                 (\<exists>c. sampleRGBA r src (Finite cx) (Finite cy) sw sh = Inr c) \<and>
                 (\<exists>c. sampleRGBA64 r src (Finite cx) (Finite cy) sw sh = Inr c) \<and>
                 (\<exists>c. sampleGray r src (Finite cx) (Finite cy) sw sh = Inr c) \<and>
                 (\<exists>c. sampleGray16 r src (Finite cx) (Finite cy) sw sh = Inr c)))) \<and>
         (\<forall>(r::Resizer) (src::Image).
            Dx (Bounds src) = sw \<and> Dy (Bounds src) = sh \<and>
            TargetWidth (config r) = tw \<and> TargetHeight (config r) = th \<longrightarrow>
            (\<exists>img. Resize r (Some src) = Inr img))"
proof (intro conjI allI impI)
  fix x y assume xy: "0 \<le> x \<and> x < tw \<and> 0 \<le> y \<and> y < th"
  from assms have d: "1 \<le> sw" "sw \<le> 65535" "1 \<le> sh" "sh \<le> 65535"
    "1 \<le> tw" "tw \<le> 65535" "1 \<le> th" "th \<le> 65535"
    by (simp_all add: valid_request_def)
  from xy have x: "0 \<le> x" "x < tw" and y: "0 \<le> y" "y < th" by simp_all
  from src_center_range [OF d(1,2,5,6) x] obtain cx where
    cx: "src_center x sw tw = Finite cx" "0 \<le> cx" "cx < of_int sw"
      "round64 (frac cx) = frac cx" by blast
  from src_center_range [OF d(3,4,7,8) y] obtain cy where
    cy: "src_center y sh th = Finite cy" "0 \<le> cy" "cy < of_int sh"
      "round64 (frac cy) = frac cy" by blast
  have big: "sw \<le> 2 ^ 53" "sh \<le> 2 ^ 53" "cx < 2 ^ 53" "cy < 2 ^ 53"
    using d cx(2,3) cy(2,3) by simp_all
  note fx = frac_offset [OF cx(2) big(3), unfolded cx(4)]
  note fy = frac_offset [OF cy(2) big(4), unfolded cy(4)]
  have lt: "frac cx < 1" "frac cy < 1" by (simp_all add: frac_lt_1)
  have "(float64_of_int x + Finite 0.5) * (float64_of_int sw / float64_of_int tw) = Finite cx"
    "(float64_of_int y + Finite 0.5) * (float64_of_int sh / float64_of_int th) = Finite cy"
    using cx(1) cy(1) by (simp_all only: src_center_def)
  moreover have "CalculateKernelBounds (Finite cx) sw = Inr (\<lfloor>cx\<rfloor> - 1,
      \<lfloor>cx\<rfloor> - 1 + 4)"
    "CalculateKernelBounds (Finite cy) sh = Inr (\<lfloor>cy\<rfloor> - 1, \<lfloor>cy\<rfloor> -
        1 + 4)"
    using big cx(2,3) cy(2,3) by (simp_all only: CalculateKernelBounds_in_range)
  moreover have "\<exists>dx dy.
                 Finite cx - float64_of_int (int_of_float64 (Finite cx)) = Finite dx \<and>
                 Finite cy - float64_of_int (int_of_float64 (Finite cy)) = Finite dy \<and>
                 dx = frac cx \<and> dy = frac cy \<and>
                 0 \<le> dx \<and> dx < 1 \<and> 0 \<le> dy \<and> dy < 1 \<and>
                 (\<forall>pixels. InterpolateBicubic pixels (Finite dx) (Finite dy)
                              \<noteq> Inl ErrInvalidCoordinate)"
    using fx fy lt InterpolateBicubic_offsets [OF fx(2,3) fy(2,3)]
    by blast
  moreover have "\<forall>(r::Resizer) (src::Image).
                 (\<exists>c. sampleRGBA r src (Finite cx) (Finite cy) sw sh = Inr c) \<and>
                 (\<exists>c. sampleRGBA64 r src (Finite cx) (Finite cy) sw sh = Inr c) \<and>
                 (\<exists>c. sampleGray r src (Finite cx) (Finite cy) sw sh = Inr c) \<and>
                 (\<exists>c. sampleGray16 r src (Finite cx) (Finite cy) sw sh = Inr c)"
  proof (intro allI conjI)
    fix r :: Resizer and src :: Image
    show "\<exists>c. sampleRGBA r src (Finite cx) (Finite cy) sw sh = Inr c"
      by (rule sampleRGBA_in_range [OF d(1-4) cx(2,3) cy(2,3)])
    show "\<exists>c. sampleRGBA64 r src (Finite cx) (Finite cy) sw sh = Inr c"
      by (rule sampleRGBA64_in_range [OF d(1-4) cx(2,3) cy(2,3)])
    from sampleGray_in_range [OF d(1-4) cx(2,3) cy(2,3), of r src]
    show "\<exists>c. sampleGray r src (Finite cx) (Finite cy) sw sh = Inr c" by blast
    show "\<exists>c. sampleGray16 r src (Finite cx) (Finite cy) sw sh = Inr c"
      by (rule sampleGray16_in_range [OF d(1-4) cx(2,3) cy(2,3)])
  qed
  ultimately show "\<exists>cx cy.
              (float64_of_int x + Finite 0.5) * (float64_of_int sw / float64_of_int tw) = Finite
                  cx \<and>
              (float64_of_int y + Finite 0.5) * (float64_of_int sh / float64_of_int th) = Finite
                  cy \<and>
              0 \<le> cx \<and> cx < of_int sw \<and> 0 \<le> cy \<and> cy < of_int sh \<and>
              CalculateKernelBounds (Finite cx) sw = Inr (\<lfloor>cx\<rfloor> - 1,
                  \<lfloor>cx\<rfloor> - 1 + 4) \<and>
              CalculateKernelBounds (Finite cy) sh = Inr (\<lfloor>cy\<rfloor> - 1,
                  \<lfloor>cy\<rfloor> - 1 + 4) \<and>
              (\<exists>dx dy.
                 Finite cx - float64_of_int (int_of_float64 (Finite cx)) = Finite dx \<and>
                 Finite cy - float64_of_int (int_of_float64 (Finite cy)) = Finite dy \<and>
                 dx = frac cx \<and> dy = frac cy \<and>
                 0 \<le> dx \<and> dx < 1 \<and> 0 \<le> dy \<and> dy < 1 \<and>
                 (\<forall>pixels. InterpolateBicubic pixels (Finite dx) (Finite dy)
                              \<noteq> Inl ErrInvalidCoordinate)) \<and>
              (\<forall>(r::Resizer) (src::Image).
                 (\<exists>c. sampleRGBA r src (Finite cx) (Finite cy) sw sh = Inr c) \<and>
                 (\<exists>c. sampleRGBA64 r src (Finite cx) (Finite cy) sw sh = Inr c) \<and>
                 (\<exists>c. sampleGray r src (Finite cx) (Finite cy) sw sh = Inr c) \<and>
                 (\<exists>c. sampleGray16 r src (Finite cx) (Finite cy) sw sh = Inr c))"
    using cx(2,3) cy(2,3) by blast
next
  fix r :: Resizer and src :: Image
  assume "Dx (Bounds src) = sw \<and> Dy (Bounds src) = sh \<and>
            TargetWidth (config r) = tw \<and> TargetHeight (config r) = th"
  with assms have "valid_request (Dx (Bounds src)) (Dy (Bounds src))
             (TargetWidth (config r)) (TargetHeight (config r))"
    by simp
  from Resize_valid [OF this] show "\<exists>img. Resize r (Some src) = Inr img" by blast
qed

theorem valid_request_coordinates_witness:
  "valid_request 4 4 8 8 \<and> (0::int) \<le> 7 \<and> (7::int) < 8 \<and> (0::int) \<le> 0
      \<and> (0::int) < 8 \<and>
   (\<exists>cx cy.
      (float64_of_int 7 + Finite 0.5) * (float64_of_int 4 / float64_of_int 8) = Finite cx \<and>
      (float64_of_int 0 + Finite 0.5) * (float64_of_int 4 / float64_of_int 8) = Finite cy \<and>
      0 \<le> cx \<and> cx < 4 \<and> 0 \<le> cy \<and> cy < 4 \<and>
      (\<exists>c. sampleGray \<lparr>config = \<lparr>TargetWidth = 8, TargetHeight = 8, Quality
          = 100\<rparr>\<rparr>
             (uniform_gray 4 4 128) (Finite cx) (Finite cy) 4 4 = Inr c)) \<and>
   (\<exists>img. Resize \<lparr>config = \<lparr>TargetWidth = 8, TargetHeight = 8, Quality =
       100\<rparr>\<rparr>
             (Some (uniform_gray 4 4 128)) = Inr img)"
proof -
  let ?r = "\<lparr>config = \<lparr>TargetWidth = 8, TargetHeight = 8, Quality =
      100\<rparr>\<rparr>"
  let ?src = "uniform_gray 4 4 128"
  have v: "valid_request 4 4 8 8" by (simp add: valid_request_def)
  have xy: "(0::int) \<le> 7 \<and> (7::int) < 8 \<and> (0::int) \<le> 0 \<and> (0::int) < 8" by
      simp
  have s: "Dx (Bounds ?src) = 4 \<and> Dy (Bounds ?src) = 4 \<and>
            TargetWidth (config ?r) = 8 \<and> TargetHeight (config ?r) = 8"
    by (simp add: uniform_gray_def image_Rect_def Dx_def Dy_def)
  note whole = valid_request_coordinates [OF v, THEN conjunct2, rule_format, of ?src ?r, OF s]
  note pixel = valid_request_coordinates [OF v, THEN conjunct1, rule_format, of 7 0, OF xy]
  from pixel obtain cx cy where
    c: "(float64_of_int 7 + Finite 0.5) * (float64_of_int 4 / float64_of_int 8) = Finite cx"
      "(float64_of_int 0 + Finite 0.5) * (float64_of_int 4 / float64_of_int 8) = Finite cy"
      "0 \<le> cx" "cx < real_of_int 4" "0 \<le> cy" "cy < real_of_int 4"
    and all: "\<forall>(r::Resizer) (src::Image).
                 (\<exists>c. sampleRGBA r src (Finite cx) (Finite cy) 4 4 = Inr c) \<and>
                 (\<exists>c. sampleRGBA64 r src (Finite cx) (Finite cy) 4 4 = Inr c) \<and>
                 (\<exists>c. sampleGray r src (Finite cx) (Finite cy) 4 4 = Inr c) \<and>
                 (\<exists>c. sampleGray16 r src (Finite cx) (Finite cy) 4 4 = Inr c)"
    by (elim exE conjE) (rule that; assumption)
  from all have "\<exists>c. sampleGray ?r ?src (Finite cx) (Finite cy) 4 4 = Inr c" by simp
  with c have "\<exists>cx cy.
      (float64_of_int 7 + Finite 0.5) * (float64_of_int 4 / float64_of_int 8) = Finite cx \<and>
      (float64_of_int 0 + Finite 0.5) * (float64_of_int 4 / float64_of_int 8) = Finite cy \<and>
      0 \<le> cx \<and> cx < 4 \<and> 0 \<le> cy \<and> cy < 4 \<and>
      (\<exists>c. sampleGray ?r ?src (Finite cx) (Finite cy) 4 4 = Inr c)"
    by (intro exI [of _ cx] exI [of _ cy] conjI) simp_all
  with v xy whole show ?thesis by (intro conjI) simp_all
qed

text \<open>
  C10. \<open>Quality\<close> has no effect. \<open>NewResizer\<close> fails exactly when the
      target
  dimensions are invalid, with the same error whatever \<open>Quality\<close> is; when it succeeds
  it keeps the target dimensions and only replaces a \<open>Quality\<close> outside \<open>[0,
      100]\<close> by
  100. Two resizers built from configurations that differ only in \<open>Quality\<close>, and more
  generally two resizers that differ only in their stored \<open>Quality\<close>, give the same
  result of \<open>Resize\<close> on every source.
\<close>

theorem Quality_is_ignored:
  "(NewResizer (cfg\<lparr>Quality := q\<rparr>) = Inl e \<longleftrightarrow> NewResizer cfg =
      Inl e) \<and>
   ((\<exists>e'. NewResizer cfg = Inl e') \<longleftrightarrow>
      ValidateDimensions (TargetWidth cfg) (TargetHeight cfg) \<noteq> None) \<and>
   (\<forall>r. NewResizer cfg = Inr r \<longrightarrow>
      config r = cfg\<lparr>Quality := (if Quality cfg < 0 \<or> 100 < Quality cfg then 100
                                   else Quality cfg)\<rparr>) \<and>
   (\<forall>r1 r2. NewResizer cfg = Inr r1 \<and> NewResizer (cfg\<lparr>Quality := q\<rparr>) =
       Inr r2 \<longrightarrow>
      Resize r1 src = Resize r2 src) \<and>
   Resize (r\<lparr>config := (config r)\<lparr>Quality := q\<rparr>\<rparr>) src = Resize r src"
proof (intro conjI allI impI)
  show "NewResizer (cfg\<lparr>Quality := q\<rparr>) = Inl e \<longleftrightarrow> NewResizer cfg
      = Inl e"
    by (simp add: NewResizer_def Let_def split: option.splits)
next
  show "(\<exists>e'. NewResizer cfg = Inl e') \<longleftrightarrow>
      ValidateDimensions (TargetWidth cfg) (TargetHeight cfg) \<noteq> None"
    by (simp add: NewResizer_def Let_def split: option.splits)
next
  fix r assume "NewResizer cfg = Inr r"
  then show "config r = cfg\<lparr>Quality := (if Quality cfg < 0 \<or> 100 < Quality cfg then 100
                                   else Quality cfg)\<rparr>"
    by (auto simp: NewResizer_def Let_def split: option.splits)
next
  fix r1 r2
  assume a: "NewResizer cfg = Inr r1 \<and> NewResizer (cfg\<lparr>Quality := q\<rparr>) = Inr r2"
  then have "r2 = r1\<lparr>config := (config r1)\<lparr>Quality := Quality (config
      r2)\<rparr>\<rparr>"
    by (auto simp: NewResizer_def Let_def split: option.splits if_splits)
  then have "Resize r2 src = Resize (r1\<lparr>config := (config r1)\<lparr>Quality := Quality
      (config r2)\<rparr>\<rparr>) src"
    by simp
  then show "Resize r1 src = Resize r2 src"
    by (simp only: Resize_Quality)
next
  show "Resize (r\<lparr>config := (config r)\<lparr>Quality := q\<rparr>\<rparr>) src = Resize r
      src"
    by (rule Resize_Quality)
qed

theorem Quality_is_ignored_witness:
  "NewResizer \<lparr>TargetWidth = 8, TargetHeight = 8, Quality = 50\<rparr>
     = Inr \<lparr>config = \<lparr>TargetWidth = 8, TargetHeight = 8, Quality =
         50\<rparr>\<rparr> \<and>
   NewResizer \<lparr>TargetWidth = 8, TargetHeight = 8, Quality = 250\<rparr>
     = Inr \<lparr>config = \<lparr>TargetWidth = 8, TargetHeight = 8, Quality =
         100\<rparr>\<rparr> \<and>
   Resize \<lparr>config = \<lparr>TargetWidth = 8, TargetHeight = 8, Quality = 50\<rparr>\<rparr>
       (Some (uniform_gray 4 4 128))
     = Resize \<lparr>config = \<lparr>TargetWidth = 8, TargetHeight = 8, Quality =
         100\<rparr>\<rparr>
         (Some (uniform_gray 4 4 128))"
proof -
  let ?cfg = "\<lparr>TargetWidth = 8, TargetHeight = 8, Quality = 50\<rparr>"
  let ?r1 = "\<lparr>config = \<lparr>TargetWidth = 8, TargetHeight = 8, Quality =
      50\<rparr>\<rparr>"
  let ?r2 = "\<lparr>config = \<lparr>TargetWidth = 8, TargetHeight = 8, Quality =
      100\<rparr>\<rparr>"
  have v: "ValidateDimensions 8 8 = None" by (simp add: ValidateDimensions_None)
  have n1: "NewResizer ?cfg = Inr ?r1" by (simp add: NewResizer_def v)
  have n2: "NewResizer (?cfg\<lparr>Quality := 250\<rparr>) = Inr ?r2" by (simp add:
      NewResizer_def v)
  note same = Quality_is_ignored [where cfg = ?cfg and q = 250
      and src = "Some (uniform_gray 4 4 128)", THEN conjunct2, THEN conjunct2, THEN conjunct2,
      THEN conjunct1, rule_format, OF conjI, OF n1 n2]
  from same have "Resize ?r1 (Some (uniform_gray 4 4 128)) = Resize ?r2 (Some (uniform_gray 4 4
      128))" .
  with n1 n2 show ?thesis by simp
qed

end
